theory Spec2Isabelle
  imports Complex_Main "HOL-Library.Multiset"
begin

section \<open>Data model of \<^verbatim>\<open>mnist/main.py\<close>\<close>

text \<open>
  A sample is an image with its integer class label; a batch is the list of samples a
  loader hands out at once. Images are kept abstract (\<open>'x\<close>). Python floats are
  modelled by exact reals: rounding is not part of this development.
\<close>

type_synonym 'x sample = "'x \<times> nat"
type_synonym 'x batch = "'x sample list"

text \<open>
  The exceptions that can leave the program: \<open>ValueError\<close> (a loader or optimizer
  constructor rejecting its arguments), \<open>ZeroDivisionError\<close> (Python's \<open>%\<close> and
  \<open>/\<close> by zero), \<open>IndexError\<close> (a label outside the model's classes in
  \<open>nll_loss\<close>), \<open>ComputationError\<close> (any failure inside the numeric library while a
  training batch is computed), \<open>RuntimeError\<close> (a seed that does not fit the generator).
\<close>

datatype error =
  ValueError | ZeroDivisionError | IndexError | ComputationError | RuntimeError

text \<open>The namespace \<open>args\<close> returned by \<open>parser.parse_args()\<close> (lines 41-52).\<close>

record args =
  batch_size :: int
  test_batch_size :: int
  epochs :: int
  lr :: real
  gamma :: real
  no_cuda :: bool
  dry_run :: bool
  seed :: int
  log_interval :: int
  save_model :: bool

text \<open>Keyword dictionaries (\<open>train_kwargs\<close>, \<open>test_kwargs\<close>, \<open>cuda_kwargs\<close>).\<close>

datatype kwval = IntV int | BoolV bool

type_synonym kwargs = "string \<rightharpoonup> kwval"

text \<open>
  \<open>torch.utils.data.DataLoader(dataset, **kwargs)\<close>: the loader keeps the dataset, the
  batch size (default 1) and the shuffle flag (default \<open>False\<close>); the constructor
  raises \<open>ValueError\<close> for a shuffling loader over an empty dataset (its random sampler
  needs a positive number of samples) and unless the batch size is positive.
  \<open>num_workers\<close> and \<open>pin_memory\<close> do not change what is iterated and are not stored.
\<close>

record 'x loader =
  dataset :: "'x sample list"
  bsize :: nat
  shuffle :: bool

definition DataLoader :: "'x sample list \<Rightarrow> kwargs \<Rightarrow> error + 'x loader" where
  "DataLoader ds kw =
     (let bs = (case kw ''batch_size'' of Some (IntV n) \<Rightarrow> n | _ \<Rightarrow> 1);
          sh = (case kw ''shuffle'' of Some (BoolV b) \<Rightarrow> b | _ \<Rightarrow> False)
      in if sh \<and> ds = [] then Inl ValueError
         else if bs \<le> 0 then Inl ValueError
         else Inr \<lparr>dataset = ds, bsize = nat bs, shuffle = sh\<rparr>)"

text \<open>
  The library behind the program, as a record of functions over abstract parameter
  states \<open>'p\<close>, optimizer states \<open>'o\<close> and random generator states \<open>'g\<close>:
  \<^item> \<open>cuda_is_available\<close>: \<open>torch.cuda.is_available()\<close>;
  \<^item> \<open>manual_seed\<close>: the generator state installed by \<open>torch.manual_seed\<close>;
  \<^item> \<open>CNN\<close>: building the model draws its initial parameters from the generator;
  \<^item> \<open>Adadelta\<close>: the optimizer's initial per-parameter state;
  \<^item> \<open>shuffled\<close>: the order in which a shuffling loader visits its dataset in one
    iteration, drawn from the generator;
  \<^item> \<open>fit_batch\<close>: lines 14-18 for one batch at a given learning rate
    (\<open>zero_grad\<close>, forward in training mode, mean \<open>nll_loss\<close>, \<open>backward\<close>,
    \<open>optimizer.step\<close>): the batch loss and the updated parameters, optimizer state and
    generator, or a failure;
  \<^item> \<open>forward\<close>: the model's output row (per-class log-probabilities) for one image
    in evaluation mode.
\<close>

record ('x, 'p, 'o, 'g) torch =
  cuda_is_available :: bool
  manual_seed :: "int \<Rightarrow> 'g"
  CNN :: "'g \<Rightarrow> 'p \<times> 'g"
  Adadelta :: "'p \<Rightarrow> 'o"
  shuffled :: "'g \<Rightarrow> 'x sample list \<Rightarrow> 'x sample list \<times> 'g"
  fit_batch :: "real \<Rightarrow> 'x batch \<Rightarrow> 'p \<times> 'o \<times> 'g \<Rightarrow> error + (real \<times> 'p \<times> 'o \<times> 'g)"
  forward :: "'p \<Rightarrow> 'x \<Rightarrow> real list"

text \<open>
  The mutable objects of a run: the model (parameters and train/eval flag), the
  optimizer (its state and the learning rate of its parameter group), the scheduler's
  step counter and the global random generator.
\<close>

record ('p, 'o, 'g) state =
  params :: 'p
  training :: bool
  opt_state :: 'o
  cur_lr :: real
  last_epoch :: nat
  gen :: 'g

text \<open>
  What a run does to the outside, in order:
  \<^item> \<open>OptStep epoch i r b\<close>: \<open>optimizer.step()\<close> was executed for batch \<open>b\<close> with
    index \<open>i\<close> in epoch \<open>epoch\<close> at learning rate \<open>r\<close>;
  \<^item> \<open>TrainObs epoch k n pct loss\<close>: the line printed by \<open>train\<close>;
  \<^item> \<open>EvalBatch b\<close>: the model was applied to batch \<open>b\<close> in \<open>test\<close>;
  \<^item> \<open>TestObs avg correct n pct\<close>: the line printed by \<open>test\<close>;
  \<^item> \<open>SchedStep r r'\<close>: \<open>scheduler.step()\<close> changed the learning rate from \<open>r\<close> to \<open>r'\<close>;
  \<^item> \<open>Saved name p\<close>: \<open>torch.save\<close> wrote the parameters \<open>p\<close> to the file \<open>name\<close>.
\<close>

datatype ('x, 'p) event =
    OptStep int nat real "'x batch"
  | TrainObs int nat nat real real
  | EvalBatch "'x batch"
  | TestObs real nat nat real
  | SchedStep real real
  | Saved string 'p

section \<open>Loaders\<close>

text \<open>Consecutive groups of \<open>n\<close> elements; the last group may be shorter (\<open>drop_last=False\<close>).\<close>

function chunks :: "nat \<Rightarrow> 'a list \<Rightarrow> 'a list list" where
  "chunks n [] = []"
| "chunks n (x # xs) = (if n = 0 then [] else take n (x # xs) # chunks n (drop n (x # xs)))"
  by pat_completeness auto
termination
  by (relation "measure (\<lambda>(n, xs). length xs)") auto

text \<open>\<open>len(loader)\<close>: the number of batches, rounded up.\<close>

definition loader_len :: "'x loader \<Rightarrow> nat" where
  "loader_len L = (length (dataset L) + bsize L - 1) div bsize L"

text \<open>
  One iteration over a loader (\<open>for ... in loader\<close>): the batches in visiting order and
  the generator afterwards. A shuffling loader draws the order of the pass from the
  generator; a loader that does not shuffle hands out the dataset in its own order.
\<close>

definition iter_loader ::
  "('x, 'p, 'o, 'g) torch \<Rightarrow> 'x loader \<Rightarrow> 'g \<Rightarrow> 'x batch list \<times> 'g" where
  "iter_loader T L g =
     (if shuffle L
      then (let (xs, g') = shuffled T g (dataset L) in (chunks (bsize L) xs, g'))
      else (chunks (bsize L) (dataset L), g))"

section \<open>The training pass (\<open>train\<close>, lines 10-22)\<close>

text \<open>
  The loop body for the enumerated batches. \<open>batch_idx % args.log_interval\<close> raises for
  a zero interval; Python's \<open>%\<close> on integers is \<open>mod\<close> on \<open>int\<close>. The \<open>break\<close> of
  \<open>dry_run\<close> sits inside the logging branch.
\<close>

fun train_loop ::
  "('x, 'p, 'o, 'g) torch \<Rightarrow> args \<Rightarrow> int \<Rightarrow> 'x loader \<Rightarrow> (nat \<times> 'x batch) list \<Rightarrow>
   ('p, 'o, 'g) state \<Rightarrow> ('x, 'p) event list \<times> (error + ('p, 'o, 'g) state)" where
  "train_loop T a epoch L [] s = ([], Inr s)"
| "train_loop T a epoch L ((batch_idx, b) # rest) s =
     (case fit_batch T (cur_lr s) b (params s, opt_state s, gen s) of
        Inl e \<Rightarrow> ([], Inl e)
      | Inr (loss, p, ost, g) \<Rightarrow>
          (let s' = s\<lparr>params := p, opt_state := ost, gen := g\<rparr>;
               step = OptStep epoch batch_idx (cur_lr s) b
           in if log_interval a = 0 then ([step], Inl ZeroDivisionError)
              else if int batch_idx mod log_interval a = 0
              then (let obs = TrainObs epoch (batch_idx * length b) (length (dataset L))
                                (100 * real batch_idx / real (loader_len L)) loss
                    in if dry_run a then ([step, obs], Inr s')
                       else (let (evs, r) = train_loop T a epoch L rest s'
                             in (step # obs # evs, r)))
              else (let (evs, r) = train_loop T a epoch L rest s'
                    in (step # evs, r))))"

definition train ::
  "('x, 'p, 'o, 'g) torch \<Rightarrow> args \<Rightarrow> 'x loader \<Rightarrow> int \<Rightarrow>
   ('p, 'o, 'g) state \<Rightarrow> ('x, 'p) event list \<times> (error + ('p, 'o, 'g) state)" where
  "train T a L epoch s =
     (let s1 = s\<lparr>training := True\<rparr>;
          (bs, g) = iter_loader T L (gen s1)
      in train_loop T a epoch L (enumerate 0 bs) (s1\<lparr>gen := g\<rparr>))"

section \<open>The evaluation pass (\<open>test\<close>, lines 24-38)\<close>

text \<open>
  \<open>F.nll_loss(output, target, reduction='sum')\<close>: minus the sum of the entries the
  labels select; a label outside its row raises.
\<close>

definition nll_sum :: "real list list \<Rightarrow> nat list \<Rightarrow> error + real" where
  "nll_sum output target =
     (if list_ex (\<lambda>(row, y). length row \<le> y) (zip output target) then Inl IndexError
      else Inr (\<Sum>(row, y) \<leftarrow> zip output target. - (row ! y)))"

text \<open>\<open>argmax\<close> of one row: the index of a largest entry (the first one, among equals).\<close>

fun argmax :: "real list \<Rightarrow> nat" where
  "argmax [] = 0"
| "argmax [v] = 0"
| "argmax (v # w # ws) = (let j = argmax (w # ws) in if v < (w # ws) ! j then Suc j else 0)"

text \<open>\<open>pred.eq(target.view_as(pred)).sum().item()\<close>: the positions where they agree.\<close>

definition count_eq :: "nat list \<Rightarrow> nat list \<Rightarrow> nat" where
  "count_eq pred target = length (filter (\<lambda>(q, y). q = y) (zip pred target))"

fun test_loop ::
  "('p \<Rightarrow> 'x \<Rightarrow> real list) \<Rightarrow> 'p \<Rightarrow> 'x batch list \<Rightarrow> real \<times> nat \<Rightarrow>
   ('x, 'p) event list \<times> (error + real \<times> nat)" where
  "test_loop fwd p [] acc = ([], Inr acc)"
| "test_loop fwd p (b # rest) (test_loss, correct) =
     (let output = map (\<lambda>(x, y). fwd p x) b;
          target = map snd b
      in case nll_sum output target of
           Inl e \<Rightarrow> ([EvalBatch b], Inl e)
         | Inr l \<Rightarrow>
             (let pred = map argmax output;
                  (evs, r) = test_loop fwd p rest
                               (test_loss + l, correct + count_eq pred target)
              in (EvalBatch b # evs, r)))"

definition test ::
  "('x, 'p, 'o, 'g) torch \<Rightarrow> 'x loader \<Rightarrow>
   ('p, 'o, 'g) state \<Rightarrow> ('x, 'p) event list \<times> (error + ('p, 'o, 'g) state)" where
  "test T L s =
     (let s1 = s\<lparr>training := False\<rparr>;
          (bs, g) = iter_loader T L (gen s1);
          s2 = s1\<lparr>gen := g\<rparr>
      in case test_loop (forward T) (params s2) bs (0, 0) of
           (evs, Inl e) \<Rightarrow> (evs, Inl e)
         | (evs, Inr (test_loss, correct)) \<Rightarrow>
             (let n = length (dataset L)
              in if n = 0 then (evs, Inl ZeroDivisionError)
                 else (evs @ [TestObs (test_loss / real n) correct n
                                 (100 * real correct / real n)], Inr s2)))"

section \<open>The program (lines 53-80)\<close>

text \<open>
  \<open>StepLR(optimizer, step_size, gamma).step()\<close>: the counter advances, and the learning
  rate is multiplied by \<open>gamma\<close> whenever the counter is a multiple of \<open>step_size\<close>.
\<close>

definition scheduler_step :: "nat \<Rightarrow> real \<Rightarrow> ('p, 'o, 'g) state \<Rightarrow> ('p, 'o, 'g) state" where
  "scheduler_step step_size gm s =
     (let n = Suc (last_epoch s)
      in s\<lparr>last_epoch := n,
            cur_lr := (if n mod step_size \<noteq> 0 then cur_lr s else cur_lr s * gm)\<rparr>)"

definition use_cuda :: "('x, 'p, 'o, 'g) torch \<Rightarrow> args \<Rightarrow> bool" where
  "use_cuda T a = (\<not> no_cuda a \<and> cuda_is_available T)"

text \<open>
  \<open>torch.manual_seed(n)\<close> (line 55): the process's default generator, in whatever state
  \<open>g\<close> the library's start-up left it, is put into the state that belongs to the seed;
  a seed outside \<open>[-2^63, 2^64 - 1]\<close> raises.
\<close>

definition torch_manual_seed ::
  "('x, 'p, 'o, 'g) torch \<Rightarrow> int \<Rightarrow> 'g \<Rightarrow> error + 'g" where
  "torch_manual_seed T n g =
     (if n < - (2 ^ 63) \<or> 2 ^ 64 - 1 < n then Inl RuntimeError else Inr (manual_seed T n))"

text \<open>
  Lines 53-73: seed, keyword dictionaries, loaders, model, optimizer, scheduler. The
  state \<open>ambient\<close> of the default generator at the start of the process and the two
  datasets are inputs. \<open>Adadelta\<close> rejects a negative learning rate.
\<close>

definition initialise ::
  "('x, 'p, 'o, 'g) torch \<Rightarrow> args \<Rightarrow> 'g \<Rightarrow> 'x sample list \<Rightarrow> 'x sample list \<Rightarrow>
   error + ('x loader \<times> 'x loader \<times> ('p, 'o, 'g) state)" where
  "initialise T a ambient train_dataset test_dataset =
     (case torch_manual_seed T (seed a) ambient of
        Inl e \<Rightarrow> Inl e
      | Inr g0 \<Rightarrow>
     (let train_kwargs = [''batch_size'' \<mapsto> IntV (batch_size a)];
          test_kwargs = [''batch_size'' \<mapsto> IntV (test_batch_size a)];
          cuda_kwargs = [''num_workers'' \<mapsto> IntV 1, ''pin_memory'' \<mapsto> BoolV True,
                         ''shuffle'' \<mapsto> BoolV True];
          train_kwargs' = (if use_cuda T a then train_kwargs ++ cuda_kwargs else train_kwargs);
          test_kwargs' = (if use_cuda T a then test_kwargs ++ cuda_kwargs else test_kwargs)
      in case DataLoader train_dataset train_kwargs' of
           Inl e \<Rightarrow> Inl e
         | Inr train_loader \<Rightarrow>
             (case DataLoader test_dataset test_kwargs' of
                Inl e \<Rightarrow> Inl e
              | Inr test_loader \<Rightarrow>
                  (let (p, g1) = CNN T g0
                   in if lr a < 0 then Inl ValueError
                      else Inr (train_loader, test_loader,
                                \<lparr>params = p, training = True, opt_state = Adadelta T p,
                                 cur_lr = lr a, last_epoch = 0, gen = g1\<rparr>)))))"

text \<open>The body of the epoch loop (lines 75-77) for one epoch number.\<close>

definition epoch_body ::
  "('x, 'p, 'o, 'g) torch \<Rightarrow> args \<Rightarrow> 'x loader \<Rightarrow> 'x loader \<Rightarrow> int \<Rightarrow>
   ('p, 'o, 'g) state \<Rightarrow> ('x, 'p) event list \<times> (error + ('p, 'o, 'g) state)" where
  "epoch_body T a train_loader test_loader epoch s =
     (case train T a train_loader epoch s of
        (e1, Inl err) \<Rightarrow> (e1, Inl err)
      | (e1, Inr s1) \<Rightarrow>
          (case test T test_loader s1 of
             (e2, Inl err) \<Rightarrow> (e1 @ e2, Inl err)
           | (e2, Inr s2) \<Rightarrow>
               (let s3 = scheduler_step 1 (gamma a) s2
                in (e1 @ e2 @ [SchedStep (cur_lr s2) (cur_lr s3)], Inr s3))))"

fun epochs_loop ::
  "('x, 'p, 'o, 'g) torch \<Rightarrow> args \<Rightarrow> 'x loader \<Rightarrow> 'x loader \<Rightarrow> int list \<Rightarrow>
   ('p, 'o, 'g) state \<Rightarrow> ('x, 'p) event list \<times> (error + ('p, 'o, 'g) state)" where
  "epochs_loop T a train_loader test_loader [] s = ([], Inr s)"
| "epochs_loop T a train_loader test_loader (epoch # rest) s =
     (case epoch_body T a train_loader test_loader epoch s of
        (e1, Inl err) \<Rightarrow> (e1, Inl err)
      | (e1, Inr s1) \<Rightarrow>
          (let (e2, r) = epochs_loop T a train_loader test_loader rest s1
           in (e1 @ e2, r)))"

text \<open>\<open>range(1, args.epochs + 1)\<close> is \<open>[1..epochs a]\<close>, empty for \<open>epochs a \<le> 0\<close>.\<close>

definition main ::
  "('x, 'p, 'o, 'g) torch \<Rightarrow> args \<Rightarrow> 'g \<Rightarrow> 'x sample list \<Rightarrow> 'x sample list \<Rightarrow>
   ('x, 'p) event list \<times> (error + ('p, 'o, 'g) state)" where
  "main T a ambient train_dataset test_dataset =
     (case initialise T a ambient train_dataset test_dataset of
        Inl e \<Rightarrow> ([], Inl e)
      | Inr (train_loader, test_loader, s0) \<Rightarrow>
          (case epochs_loop T a train_loader test_loader [1..epochs a] s0 of
             (evs, Inl e) \<Rightarrow> (evs, Inl e)
           | (evs, Inr s) \<Rightarrow>
               if save_model a then (evs @ [Saved ''mnist_cnn.pt'' (params s)], Inr s)
               else (evs, Inr s)))"

section \<open>Reference definitions\<close>

text \<open>
  The definitions of this section are not translations of the program. They say, in the
  words of its description, what a run is compared with.
\<close>

text \<open>
  The library whose optimizer works at the rate \<open>r\<close>, whatever rate it is handed.
\<close>

definition pinned :: "('x, 'p, 'o, 'g) torch \<Rightarrow> real \<Rightarrow> ('x, 'p, 'o, 'g) torch" where
  "pinned T r = T\<lparr>fit_batch := (\<lambda>r' b st. fit_batch T r b st)\<rparr>"

text \<open>
  The epochs with the schedule in closed form: epoch \<open>k\<close> starts at the learning rate
  \<open>lr * gamma ^ (k - 1)\<close> and trains with an optimizer fixed at that rate; after its
  evaluation pass the one schedule step multiplies the rate by \<open>gamma\<close>.
\<close>

fun sched_epochs_loop ::
  "('x, 'p, 'o, 'g) torch \<Rightarrow> args \<Rightarrow> 'x loader \<Rightarrow> 'x loader \<Rightarrow> int list \<Rightarrow>
   ('p, 'o, 'g) state \<Rightarrow> ('x, 'p) event list \<times> (error + ('p, 'o, 'g) state)" where
  "sched_epochs_loop T a train_loader test_loader [] s = ([], Inr s)"
| "sched_epochs_loop T a train_loader test_loader (k # rest) s =
     (let r = lr a * gamma a ^ nat (k - 1)
      in case train (pinned T r) a train_loader k (s\<lparr>cur_lr := r\<rparr>) of
           (e1, Inl err) \<Rightarrow> (e1, Inl err)
         | (e1, Inr s1) \<Rightarrow>
             (case test T test_loader s1 of
                (e2, Inl err) \<Rightarrow> (e1 @ e2, Inl err)
              | (e2, Inr s2) \<Rightarrow>
                  (let s3 = s2\<lparr>last_epoch := Suc (last_epoch s2), cur_lr := r * gamma a\<rparr>;
                       (e3, res) = sched_epochs_loop T a train_loader test_loader rest s3
                   in (e1 @ e2 @ [SchedStep r (r * gamma a)] @ e3, res))))"

definition sched_main ::
  "('x, 'p, 'o, 'g) torch \<Rightarrow> args \<Rightarrow> 'g \<Rightarrow> 'x sample list \<Rightarrow> 'x sample list \<Rightarrow>
   ('x, 'p) event list \<times> (error + ('p, 'o, 'g) state)" where
  "sched_main T a ambient train_dataset test_dataset =
     (case initialise T a ambient train_dataset test_dataset of
        Inl e \<Rightarrow> ([], Inl e)
      | Inr (train_loader, test_loader, s0) \<Rightarrow>
          (case sched_epochs_loop T a train_loader test_loader [1..epochs a] s0 of
             (evs, Inl e) \<Rightarrow> (evs, Inl e)
           | (evs, Inr s) \<Rightarrow>
               if save_model a then (evs @ [Saved ''mnist_cnn.pt'' (params s)], Inr s)
               else (evs, Inr s)))"




text \<open>
  Two libraries that seed, shuffle and advance the generator alike, whatever else they
  compute: the same accelerator availability, seeding and shuffling, the same generator
  after the construction of the model, and after a training step on the same batch
  from the same generator state the same generator state, whatever the parameters, the
  optimizer states and the rates.
\<close>

definition same_sampling ::
  "('x, 'p, 'o, 'g) torch \<Rightarrow> ('x, 'q, 'u, 'g) torch \<Rightarrow> bool" where
  "same_sampling T1 T2 =
     (cuda_is_available T1 = cuda_is_available T2 \<and>
      manual_seed T1 = manual_seed T2 \<and>
      shuffled T1 = shuffled T2 \<and>
      (\<forall>g. snd (CNN T1 g) = snd (CNN T2 g)) \<and>
      (\<forall>r1 r2 b p1 o1 p2 o2 g l1 p1' o1' g1 l2 p2' o2' g2.
         fit_batch T1 r1 b (p1, o1, g) = Inr (l1, p1', o1', g1) \<longrightarrow>
         fit_batch T2 r2 b (p2, o2, g) = Inr (l2, p2', o2', g2) \<longrightarrow> g1 = g2))"

section \<open>Reading a run's events\<close>

text \<open>
  The events of a training pass of epoch \<open>k\<close> at learning rate \<open>r\<close>, and the events of
  an evaluation pass.
\<close>

fun train_event :: "int \<Rightarrow> real \<Rightarrow> ('x, 'p) event \<Rightarrow> bool" where
  "train_event k r (OptStep k' i r' b) = (k' = k \<and> r' = r)"
| "train_event k r (TrainObs k' m n pct loss) = (k' = k)"
| "train_event k r _ = False"

fun eval_event :: "('x, 'p) event \<Rightarrow> bool" where
  "eval_event (EvalBatch b) = True"
| "eval_event (TestObs avg c n pct) = True"
| "eval_event _ = False"

text \<open>The batches of the optimizer steps (with epoch and batch index) and of the evaluation
  passes, in order of occurrence.\<close>

fun train_batches :: "('x, 'p) event list \<Rightarrow> (int \<times> nat \<times> 'x batch) list" where
  "train_batches [] = []"
| "train_batches (OptStep k i r b # evs) = (k, i, b) # train_batches evs"
| "train_batches (e # evs) = train_batches evs"

fun eval_batches :: "('x, 'p) event list \<Rightarrow> 'x batch list" where
  "eval_batches [] = []"
| "eval_batches (EvalBatch b # evs) = b # eval_batches evs"
| "eval_batches (e # evs) = eval_batches evs"

text \<open>
  The contract of a shuffling loader: one iteration visits every sample of the dataset
  exactly once, in some order.
\<close>

definition shuffle_ok :: "('x, 'p, 'o, 'g) torch \<Rightarrow> bool" where
  "shuffle_ok T = (\<forall>g xs. mset (fst (shuffled T g xs)) = mset xs)"

text \<open>
  The negative log-likelihood of one sample under the row function \<open>h\<close>: minus the
  log-probability the row gives to the sample's label.
\<close>

definition sample_nll :: "('x \<Rightarrow> real list) \<Rightarrow> 'x sample \<Rightarrow> real" where
  "sample_nll h = (\<lambda>(x, y). - (h x ! y))"

text \<open>The files written by a run, and the number of schedule steps, which is the number
  of epochs that ran to their end.\<close>

fun saves :: "('x, 'p) event list \<Rightarrow> (string \<times> 'p) list" where
  "saves [] = []"
| "saves (Saved name p # evs) = (name, p) # saves evs"
| "saves (e # evs) = saves evs"

fun completed_epochs :: "('x, 'p) event list \<Rightarrow> nat" where
  "completed_epochs [] = 0"
| "completed_epochs (SchedStep r r' # evs) = Suc (completed_epochs evs)"
| "completed_epochs (e # evs) = completed_epochs evs"

section \<open>A small instance\<close>

text \<open>
  A library on which the definitions can be evaluated. Images, optimizer states and
  generator states are natural numbers, parameters are reals. A training batch at rate
  \<open>r\<close> has loss \<open>r\<close> times its size and adds that loss to the parameters; a shuffling
  loader reverses, rotates or keeps its dataset according to the generator state, which
  it advances; the model gives every image the row \<open>[-1, -2]\<close>.
\<close>

definition lib0 :: "(nat, real, nat, nat) torch" where
  "lib0 = \<lparr>cuda_is_available = True, manual_seed = (\<lambda>n. nat \<bar>n\<bar>), CNN = (\<lambda>g. (0, Suc g)),
     Adadelta = (\<lambda>p. 0),
     shuffled = (\<lambda>g xs. (if g mod 3 = 2 then rev xs else if g mod 3 = 1 then rotate1 xs else xs,
                           Suc g)),
     fit_batch = (\<lambda>r b (p, ost, g).
                    Inr (r * real (length b), p + r * real (length b), Suc ost, g)),
     forward = (\<lambda>p x. [-1, -2])\<rparr>"

text \<open>
  A second library with the same generator, seeding and shuffling, other initial
  parameters and optimizer state, another optimizer and another model.
\<close>

definition lib1 :: "(nat, real, nat, nat) torch" where
  "lib1 = lib0\<lparr>CNN := (\<lambda>g. (5, Suc g)), Adadelta := (\<lambda>p. 7),
     fit_batch := (\<lambda>r b (p, ost, g). Inr (0, p - r, ost, g)),
     forward := (\<lambda>p x. [-3, -1, -2])\<rparr>"

definition args0 :: args where
  "args0 = \<lparr>batch_size = 2, test_batch_size = 2, epochs = 2, lr = 1, gamma = 1 / 2,
     no_cuda = False, dry_run = False, seed = 1, log_interval = 1, save_model = True\<rparr>"

definition data0 :: "nat sample list" where
  "data0 = [(10, 0), (11, 1), (12, 0)]"

text \<open>The events and the final state of the run of this instance.\<close>

definition trace0 :: "(nat, real) event list" where
  "trace0 =
    [OptStep 1 0 1 [(12, 0), (11, 1)], TrainObs 1 0 3 0 2,
     OptStep 1 1 1 [(10, 0)], TrainObs 1 1 3 50 1,
     EvalBatch [(10, 0), (11, 1)], EvalBatch [(12, 0)], TestObs (4 / 3) 2 3 (200 / 3),
     SchedStep 1 (1 / 2),
     OptStep 2 0 (1 / 2) [(11, 1), (12, 0)], TrainObs 2 0 3 0 1,
     OptStep 2 1 (1 / 2) [(10, 0)], TrainObs 2 1 3 50 (1 / 2),
     EvalBatch [(12, 0), (11, 1)], EvalBatch [(10, 0)], TestObs (4 / 3) 2 3 (200 / 3),
     SchedStep (1 / 2) (1 / 4),
     Saved ''mnist_cnn.pt'' (9 / 2)]"

definition final0 :: "(real, nat, nat) state" where
  "final0 = \<lparr>params = 9 / 2, training = False, opt_state = 4, cur_lr = 1 / 4,
     last_epoch = 2, gen = 6\<rparr>"

text \<open>The same configuration as a dry run, a shuffling loader over the data, and the
  state in which the small instance enters its first epoch.\<close>

definition dry0 :: args where
  "dry0 = args0\<lparr>dry_run := True, log_interval := 10\<rparr>"

definition loader0 :: "nat loader" where
  "loader0 = \<lparr>dataset = data0, bsize = 2, shuffle = True\<rparr>"

definition init0 :: "(real, nat, nat) state" where
  "init0 = \<lparr>params = 0, training = True, opt_state = 0, cur_lr = 1, last_epoch = 0, gen = 2\<rparr>"

text \<open>The events of the evaluation pass of the small instance from that state.\<close>

definition eval0 :: "(nat, real) event list" where
  "eval0 = [EvalBatch [(12, 0), (11, 1)], EvalBatch [(10, 0)], TestObs (4 / 3) 2 3 (200 / 3)]"

text \<open>The configuration with a zero log interval, and the one with no epochs.\<close>

definition fail0 :: args where
  "fail0 = args0\<lparr>log_interval := 0\<rparr>"

definition noep0 :: args where
  "noep0 = args0\<lparr>epochs := 0\<rparr>"


text \<open>The run of the second library from another start of the generator.\<close>

definition trace1 :: "(nat, real) event list" where
  "trace1 =
    [OptStep 1 0 1 [(12, 0), (11, 1)], TrainObs 1 0 3 0 0,
     OptStep 1 1 1 [(10, 0)], TrainObs 1 1 3 50 0,
     EvalBatch [(10, 0), (11, 1)], EvalBatch [(12, 0)], TestObs (7 / 3) 1 3 (100 / 3),
     SchedStep 1 (1 / 2),
     OptStep 2 0 (1 / 2) [(11, 1), (12, 0)], TrainObs 2 0 3 0 0,
     OptStep 2 1 (1 / 2) [(10, 0)], TrainObs 2 1 3 50 0,
     EvalBatch [(12, 0), (11, 1)], EvalBatch [(10, 0)], TestObs (7 / 3) 1 3 (100 / 3),
     SchedStep (1 / 2) (1 / 4),
     Saved ''mnist_cnn.pt'' 2]"

definition final1 :: "(real, nat, nat) state" where
  "final1 = \<lparr>params = 2, training = False, opt_state = 7, cur_lr = 1 / 4,
     last_epoch = 2, gen = 6\<rparr>"

text \<open>The configuration with no epochs and a batch size of zero.\<close>

definition badbatch0 :: args where
  "badbatch0 = noep0\<lparr>batch_size := 0\<rparr>"

section \<open>Properties of the passes\<close>

subsection \<open>Loaders\<close>

lemma chunks_concat: "0 < n \<Longrightarrow> concat (chunks n xs) = xs"
  by (induction n xs rule: chunks.induct) auto

subsection \<open>What the passes emit and what they leave alone\<close>

lemma train_loop_events_aux:
  "train_loop T a ep L ebs s = (evs, r) \<Longrightarrow> cur_lr s = x \<Longrightarrow> list_all (train_event ep x) evs"
  by (induction ebs arbitrary: s evs r)
     (fastforce split: sum.splits prod.splits if_splits simp: Let_def)+

lemma train_loop_events:
  "train_loop T a ep L ebs s = (evs, r) \<Longrightarrow> list_all (train_event ep (cur_lr s)) evs"
  by (rule train_loop_events_aux) simp_all

lemma train_loop_frame_aux:
  "train_loop T a ep L ebs s = (evs, Inr s') \<Longrightarrow> cur_lr s = x \<Longrightarrow> last_epoch s = n \<Longrightarrow>
     training s = t \<Longrightarrow> cur_lr s' = x \<and> last_epoch s' = n \<and> training s' = t"
  by (induction ebs arbitrary: s evs)
     (fastforce split: sum.splits prod.splits if_splits simp: Let_def)+

lemma train_loop_frame:
  "train_loop T a ep L ebs s = (evs, Inr s') \<Longrightarrow>
     cur_lr s' = cur_lr s \<and> last_epoch s' = last_epoch s \<and> training s' = training s"
  by (rule train_loop_frame_aux) simp_all

lemma train_events:
  "train T a L ep s = (evs, r) \<Longrightarrow> list_all (train_event ep (cur_lr s)) evs"
  by (auto simp: train_def Let_def split: prod.splits dest: train_loop_events)

lemma train_frame:
  "train T a L ep s = (evs, Inr s') \<Longrightarrow> cur_lr s' = cur_lr s \<and> last_epoch s' = last_epoch s"
  by (auto simp: train_def Let_def split: prod.splits dest: train_loop_frame)

lemma test_loop_events:
  "test_loop f p bs acc = (evs, r) \<Longrightarrow> list_all eval_event evs"
  by (induction bs arbitrary: acc evs r)
     (auto split: sum.splits prod.splits if_splits simp: Let_def)

lemma test_events:
  "test T L s = (evs, r) \<Longrightarrow> list_all eval_event evs"
  by (auto simp: test_def Let_def split: prod.splits sum.splits if_splits dest: test_loop_events)

lemma test_frame:
  "test T L s = (evs, Inr s') \<Longrightarrow> s' = s\<lparr>training := False, gen := gen s'\<rparr>"
  by (auto simp: test_def Let_def split: prod.splits sum.splits if_splits)

lemma scheduler_step_one:
  "scheduler_step (Suc 0) gm s = s\<lparr>last_epoch := Suc (last_epoch s), cur_lr := cur_lr s * gm\<rparr>"
  by (simp add: scheduler_step_def Let_def)

lemma test_lr: "test T L s = (evs, Inr s') \<Longrightarrow> cur_lr s' = cur_lr s"
  by (auto simp: test_def Let_def split: prod.splits sum.splits if_splits)

lemma epoch_body_segments:
  assumes "epoch_body T a trL teL ep s = (evs, Inr s')"
  shows "\<exists>tr te. evs = tr @ te @ [SchedStep (cur_lr s) (cur_lr s * gamma a)] \<and>
           list_all (train_event ep (cur_lr s)) tr \<and> list_all eval_event te \<and>
           cur_lr s' = cur_lr s * gamma a"
proof -
  from assms obtain tr s1 te s2 where
    tr: "train T a trL ep s = (tr, Inr s1)" and
    te: "test T teL s1 = (te, Inr s2)" and
    evs: "evs = tr @ te @ [SchedStep (cur_lr s2) (cur_lr (scheduler_step 1 (gamma a) s2))]" and
    s': "s' = scheduler_step 1 (gamma a) s2"
    by (auto simp: epoch_body_def Let_def split: prod.splits sum.splits)
  have l2: "cur_lr s2 = cur_lr s" using train_frame[OF tr] test_lr[OF te] by simp
  have "evs = tr @ te @ [SchedStep (cur_lr s) (cur_lr s * gamma a)]"
    using evs l2 by (simp add: scheduler_step_one)
  moreover have "cur_lr s' = cur_lr s * gamma a"
    using s' l2 by (simp add: scheduler_step_one)
  ultimately show ?thesis
    using train_events[OF tr] test_events[OF te] by blast
qed

lemma epoch_body_opt_steps:
  assumes "epoch_body T a trL teL ep s = (evs, r)" and "OptStep k i x b \<in> set evs"
  shows "k = ep \<and> x = cur_lr s"
proof -
  obtain tr r1 where tr: "train T a trL ep s = (tr, r1)" by (cases "train T a trL ep s")
  have trev: "\<forall>e\<in>set tr. train_event ep (cur_lr s) e"
    using train_events[OF tr] by (simp add: list_all_iff)
  have "\<exists>te. set evs \<subseteq> set tr \<union> set te \<union> {SchedStep u v | u v. True} \<and> list_all eval_event te"
  proof (cases r1)
    case (Inl e)
    then have "evs = tr" using assms(1) tr by (simp add: epoch_body_def)
    then show ?thesis by (intro exI[of _ "[]"]) auto
  next
    case (Inr s1)
    obtain te r2 where te: "test T teL s1 = (te, r2)" by (cases "test T teL s1")
    have "set evs \<subseteq> set tr \<union> set te \<union> {SchedStep u v | u v. True}"
      using assms(1) tr te Inr
      by (auto simp: epoch_body_def Let_def split: sum.splits)
    then show ?thesis using test_events[OF te] by blast
  qed
  then obtain te where sub: "set evs \<subseteq> set tr \<union> set te \<union> {SchedStep u v | u v. True}"
    and teev: "\<forall>e\<in>set te. eval_event e" by (auto simp: list_all_iff)
  from assms(2) sub have "OptStep k i x b \<in> set tr \<or> OptStep k i x b \<in> set te" by auto
  then show ?thesis
  proof
    assume "OptStep k i x b \<in> set tr"
    then show ?thesis using trev by auto
  next
    assume "OptStep k i x b \<in> set te"
    then show ?thesis using teev by auto
  qed
qed

lemma epoch_body_lr:
  "epoch_body T a trL teL ep s = (evs, Inr s') \<Longrightarrow> cur_lr s' = cur_lr s * gamma a"
  using epoch_body_segments by blast

lemma epochs_loop_opt_steps:
  "epochs_loop T a trL teL ks s = (evs, r) \<Longrightarrow> OptStep k i x b \<in> set evs \<Longrightarrow>
     \<exists>j<length ks. k = ks ! j \<and> x = cur_lr s * gamma a ^ j"
proof (induction ks arbitrary: s evs r)
  case Nil
  then show ?case by simp
next
  case (Cons ep ks)
  obtain e1 r1 where b: "epoch_body T a trL teL ep s = (e1, r1)"
    by (cases "epoch_body T a trL teL ep s")
  show ?case
  proof (cases r1)
    case (Inl err)
    with Cons.prems b have "OptStep k i x b \<in> set e1" by simp
    from epoch_body_opt_steps[OF b this] show ?thesis by (intro exI[of _ 0]) simp
  next
    case (Inr s1)
    obtain e2 r2 where l: "epochs_loop T a trL teL ks s1 = (e2, r2)"
      by (cases "epochs_loop T a trL teL ks s1")
    have lr1: "cur_lr s1 = cur_lr s * gamma a" using b Inr epoch_body_lr by blast
    from Cons.prems b Inr l have "OptStep k i x b \<in> set e1 \<or> OptStep k i x b \<in> set e2"
      by auto
    then show ?thesis
    proof
      assume "OptStep k i x b \<in> set e1"
      from epoch_body_opt_steps[OF b this] show ?thesis by (intro exI[of _ 0]) simp
    next
      assume "OptStep k i x b \<in> set e2"
      from Cons.IH[OF l this] obtain j where "j < length ks" "k = ks ! j"
        "x = cur_lr s1 * gamma a ^ j" by blast
      then show ?thesis using lr1 by (intro exI[of _ "Suc j"]) (simp add: mult.assoc)
    qed
  qed
qed

lemma epochs_loop_segments:
  "epochs_loop T a trL teL ks s = (evs, Inr s') \<Longrightarrow>
     \<exists>segs. length segs = length ks \<and>
       evs = concat (map (\<lambda>j. fst (segs ! j) @ snd (segs ! j) @
                [SchedStep (cur_lr s * gamma a ^ j) (cur_lr s * gamma a ^ Suc j)]) [0..<length ks]) \<and>
       (\<forall>j<length ks. list_all (train_event (ks ! j) (cur_lr s * gamma a ^ j)) (fst (segs ! j)) \<and>
                      list_all eval_event (snd (segs ! j)))"
proof (induction ks arbitrary: s evs)
  case Nil
  then show ?case by simp
next
  case (Cons ep ks)
  from Cons.prems obtain e1 s1 e2 where
    b: "epoch_body T a trL teL ep s = (e1, Inr s1)" and
    l: "epochs_loop T a trL teL ks s1 = (e2, Inr s')" and
    evs: "evs = e1 @ e2"
    by (auto split: prod.splits sum.splits)
  from epoch_body_segments[OF b] obtain tr te where
    e1: "e1 = tr @ te @ [SchedStep (cur_lr s) (cur_lr s * gamma a)]" and
    tr: "list_all (train_event ep (cur_lr s)) tr" and te: "list_all eval_event te" and
    lr1: "cur_lr s1 = cur_lr s * gamma a" by blast
  from Cons.IH[OF l] obtain segs where
    len: "length segs = length ks" and
    e2: "e2 = concat (map (\<lambda>j. fst (segs ! j) @ snd (segs ! j) @
                [SchedStep (cur_lr s1 * gamma a ^ j) (cur_lr s1 * gamma a ^ Suc j)]) [0..<length ks])" and
    ok: "\<forall>j<length ks. list_all (train_event (ks ! j) (cur_lr s1 * gamma a ^ j)) (fst (segs ! j)) \<and>
                      list_all eval_event (snd (segs ! j))" by blast
  let ?segs = "(tr, te) # segs"
  have "length ?segs = length (ep # ks)" using len by simp
  moreover have "evs = concat (map (\<lambda>j. fst (?segs ! j) @ snd (?segs ! j) @
                [SchedStep (cur_lr s * gamma a ^ j) (cur_lr s * gamma a ^ Suc j)]) [0..<length (ep # ks)])"
    using evs e1 e2 lr1 by (simp add: map_upt_Suc mult.assoc del: upt_Suc)
  moreover have "\<forall>j<length (ep # ks). list_all (train_event ((ep # ks) ! j) (cur_lr s * gamma a ^ j)) (fst (?segs ! j)) \<and>
                      list_all eval_event (snd (?segs ! j))"
  proof (intro allI impI)
    fix j assume "j < length (ep # ks)"
    then show "list_all (train_event ((ep # ks) ! j) (cur_lr s * gamma a ^ j)) (fst (?segs ! j)) \<and>
                      list_all eval_event (snd (?segs ! j))"
      using tr te ok lr1 by (cases j) (auto simp: mult.assoc)
  qed
  ultimately show ?case by blast
qed

subsection \<open>The batches a pass visits\<close>

lemma train_batches_append:
  "train_batches (xs @ ys) = train_batches xs @ train_batches ys"
  by (induction xs rule: train_batches.induct) auto

lemma eval_batches_append:
  "eval_batches (xs @ ys) = eval_batches xs @ eval_batches ys"
  by (induction xs rule: eval_batches.induct) auto

lemma train_batches_eval: "list_all eval_event evs \<Longrightarrow> train_batches evs = []"
  by (induction evs rule: train_batches.induct) auto

lemma eval_batches_train: "list_all (train_event k r) evs \<Longrightarrow> eval_batches evs = []"
  by (induction evs rule: eval_batches.induct) auto

lemma test_loop_eval_batches:
  "test_loop f p bs acc = (evs, Inr res) \<Longrightarrow> eval_batches evs = bs"
  by (induction bs arbitrary: acc evs)
     (auto split: sum.splits prod.splits simp: Let_def)

lemma test_eval_batches:
  "test T L s = (evs, Inr s') \<Longrightarrow> eval_batches evs = fst (iter_loader T L (gen s))"
  by (auto simp: test_def Let_def eval_batches_append
           split: prod.splits sum.splits if_splits dest: test_loop_eval_batches)

lemma iter_loader_all:
  assumes "shuffle_ok T" and "0 < bsize L"
  shows "mset (concat (fst (iter_loader T L g))) = mset (dataset L)"
  using assms
  by (auto simp: iter_loader_def shuffle_ok_def chunks_concat split: prod.splits)
     (metis fst_conv)

lemma train_dry_run:
  assumes "dry_run a" and "1 \<le> log_interval a"
    and "iter_loader T trL (gen s) = (b0 # bs, g1)"
  shows "train T a trL ep s =
           (case fit_batch T (cur_lr s) b0 (params s, opt_state s, g1) of
              Inl e \<Rightarrow> ([], Inl e)
            | Inr (loss, p, ost, g) \<Rightarrow>
                ([OptStep ep 0 (cur_lr s) b0, TrainObs ep 0 (length (dataset trL)) 0 loss],
                 Inr (s\<lparr>training := True, params := p, opt_state := ost, gen := g\<rparr>)))"
  using assms
  by (auto simp: train_def Let_def split: sum.splits prod.splits)

subsection \<open>The learning-rate schedule\<close>

lemmas run_defs = main_def initialise_def torch_manual_seed_def DataLoader_def use_cuda_def epoch_body_def train_def
  test_def iter_loader_def loader_len_def nll_sum_def count_eq_def scheduler_step_def
  lib0_def args0_def data0_def

lemma initialise_lr: "initialise T a g dtr dte = Inr (trL, teL, s0) \<Longrightarrow> cur_lr s0 = lr a"
  by (auto simp: initialise_def Let_def split: sum.splits prod.splits if_splits)

text \<open>
  The rate written on every optimizer step, and the shape of a completed run: one
  segment per epoch, made of the events of the training pass, of the evaluation pass and
  of one schedule step.
\<close>

lemma schedule_trace:
  assumes "main T a g dtr dte = (evs, r)"
  shows "(\<forall>k i x b. OptStep k i x b \<in> set evs \<longrightarrow>
            1 \<le> k \<and> k \<le> epochs a \<and> x = lr a * gamma a ^ nat (k - 1)) \<and>
         (\<forall>s. r = Inr s \<longrightarrow>
            (\<exists>segs. length segs = nat (epochs a) \<and>
               evs = concat (map (\<lambda>j. fst (segs ! j) @ snd (segs ! j) @
                        [SchedStep (lr a * gamma a ^ j) (lr a * gamma a ^ Suc j)])
                        [0..<nat (epochs a)]) @
                     (if save_model a then [Saved ''mnist_cnn.pt'' (params s)] else []) \<and>
               (\<forall>k\<in>{1..epochs a}.
                  list_all (train_event k (lr a * gamma a ^ nat (k - 1))) (fst (segs ! nat (k - 1))) \<and>
                  list_all eval_event (snd (segs ! nat (k - 1))))))"
proof (cases "initialise T a g dtr dte")
  case (Inl e)
  with assms show ?thesis by (auto simp: main_def)
next
  case (Inr tup)
  then obtain trL teL s0 where ini: "initialise T a g dtr dte = Inr (trL, teL, s0)"
    by (cases tup) auto
  have lr0: "cur_lr s0 = lr a" by (rule initialise_lr[OF ini])
  obtain e1 r1 where loop: "epochs_loop T a trL teL [1..epochs a] s0 = (e1, r1)"
    by (cases "epochs_loop T a trL teL [1..epochs a] s0")
  have sub: "\<And>k i x b. OptStep k i x b \<in> set evs \<Longrightarrow> OptStep k i x b \<in> set e1"
    using assms ini loop by (auto simp: main_def split: sum.splits if_splits)
  have part1: "\<forall>k i x b. OptStep k i x b \<in> set evs \<longrightarrow>
            1 \<le> k \<and> k \<le> epochs a \<and> x = lr a * gamma a ^ nat (k - 1)"
  proof (intro allI impI)
    fix k i x b assume "OptStep k i x b \<in> set evs"
    then have "OptStep k i x b \<in> set e1" by (rule sub)
    from epochs_loop_opt_steps[OF loop this] obtain j where
      j: "j < length [1..epochs a]" and k: "k = [1..epochs a] ! j" and x: "x = cur_lr s0 * gamma a ^ j"
      by blast
    from j have j': "int j < epochs a" by simp
    then have "k = 1 + int j" using k by simp
    then show "1 \<le> k \<and> k \<le> epochs a \<and> x = lr a * gamma a ^ nat (k - 1)"
      using j' x lr0 by simp
  qed
  have part2: "\<exists>segs. length segs = nat (epochs a) \<and>
               evs = concat (map (\<lambda>j. fst (segs ! j) @ snd (segs ! j) @
                        [SchedStep (lr a * gamma a ^ j) (lr a * gamma a ^ Suc j)])
                        [0..<nat (epochs a)]) @
                     (if save_model a then [Saved ''mnist_cnn.pt'' (params s)] else []) \<and>
               (\<forall>k\<in>{1..epochs a}.
                  list_all (train_event k (lr a * gamma a ^ nat (k - 1))) (fst (segs ! nat (k - 1))) \<and>
                  list_all eval_event (snd (segs ! nat (k - 1))))" if r: "r = Inr s" for s
  proof -
    from assms ini loop r have r1: "r1 = Inr s"
      and evs: "evs = e1 @ (if save_model a then [Saved ''mnist_cnn.pt'' (params s)] else [])"
      by (auto simp: main_def split: sum.splits if_splits)
    from epochs_loop_segments[OF loop[unfolded r1]] obtain segs where
      len: "length segs = length [1..epochs a]" and
      e1: "e1 = concat (map (\<lambda>j. fst (segs ! j) @ snd (segs ! j) @
                [SchedStep (cur_lr s0 * gamma a ^ j) (cur_lr s0 * gamma a ^ Suc j)]) [0..<length [1..epochs a]])" and
      ok: "\<forall>j<length [1..epochs a]. list_all (train_event ([1..epochs a] ! j) (cur_lr s0 * gamma a ^ j)) (fst (segs ! j)) \<and>
                      list_all eval_event (snd (segs ! j))" by blast
    have n: "length [1..epochs a] = nat (epochs a)" by simp
    have "\<forall>k\<in>{1..epochs a}.
                  list_all (train_event k (lr a * gamma a ^ nat (k - 1))) (fst (segs ! nat (k - 1))) \<and>
                  list_all eval_event (snd (segs ! nat (k - 1)))"
    proof
      fix k assume k: "k \<in> {1..epochs a}"
      then have j: "nat (k - 1) < length [1..epochs a]" by auto
      have "[1..epochs a] ! nat (k - 1) = k" using k by auto
      with ok j lr0 show "list_all (train_event k (lr a * gamma a ^ nat (k - 1))) (fst (segs ! nat (k - 1))) \<and>
                  list_all eval_event (snd (segs ! nat (k - 1)))" by metis
    qed
    then show ?thesis using len e1 evs lr0 n by (intro exI[of _ segs]) simp
  qed
  show ?thesis using part1 part2 by blast
qed

text \<open>The run of the small instance.\<close>

lemma main0: "main lib0 args0 7 data0 data0 = (trace0, Inr final0)"
  by (simp add: run_defs upto_rec1 trace0_def final0_def)

text \<open>
  An optimizer fixed at the rate of the state changes nothing in a training pass, and
  the epochs of a run are the epochs with the schedule in closed form.
\<close>

lemma train_loop_pinned:
  "cur_lr s = r \<Longrightarrow> train_loop (pinned T r) a ep L ebs s = train_loop T a ep L ebs s"
  by (induction ebs arbitrary: s)
     (auto simp: pinned_def Let_def split: sum.splits prod.splits)

lemma iter_loader_pinned: "iter_loader (pinned T r) L g = iter_loader T L g"
  by (simp add: iter_loader_def pinned_def)

lemma train_pinned:
  "cur_lr s = r \<Longrightarrow> train (pinned T r) a L ep s = train T a L ep s"
  by (simp add: train_def iter_loader_pinned train_loop_pinned split: prod.splits)

lemma epoch_body_sched:
  assumes "cur_lr s = r"
  shows "epoch_body T a trL teL k s =
           (case train (pinned T r) a trL k (s\<lparr>cur_lr := r\<rparr>) of
              (e1, Inl err) \<Rightarrow> (e1, Inl err)
            | (e1, Inr s1) \<Rightarrow>
                (case test T teL s1 of
                   (e2, Inl err) \<Rightarrow> (e1 @ e2, Inl err)
                 | (e2, Inr s2) \<Rightarrow>
                     (e1 @ e2 @ [SchedStep r (r * gamma a)],
                      Inr (s2\<lparr>last_epoch := Suc (last_epoch s2), cur_lr := r * gamma a\<rparr>))))"
proof -
  have s: "s\<lparr>cur_lr := r\<rparr> = s" using assms by simp
  have t: "train (pinned T r) a trL k s = train T a trL k s" by (rule train_pinned[OF assms])
  show ?thesis
  proof (cases "train T a trL k s")
    case (Pair e1 r1)
    show ?thesis
    proof (cases r1)
      case (Inl err)
      then show ?thesis using Pair s t by (simp add: epoch_body_def)
    next
      case (Inr s1)
      have l1: "cur_lr s1 = r" using train_frame[of T a trL k s e1 s1] Pair Inr assms by simp
      show ?thesis
      proof (cases "test T teL s1")
        case te: (Pair e2 r2)
        show ?thesis
        proof (cases r2)
          case (Inl err)
          then show ?thesis using Pair Inr te s t by (simp add: epoch_body_def)
        next
          case r2: (Inr s2)
          have l2: "cur_lr s2 = r" using test_lr[of T teL s1 e2 s2] te r2 l1 by simp
          show ?thesis using Pair Inr te r2 s t l2
            by (simp add: epoch_body_def scheduler_step_one Let_def)
        qed
      qed
    qed
  qed
qed

lemma epochs_loop_sched:
  "1 \<le> m \<Longrightarrow> cur_lr s = lr a * gamma a ^ nat (m - 1) \<Longrightarrow>
     epochs_loop T a trL teL [m..e] s = sched_epochs_loop T a trL teL [m..e] s"
proof (induction "nat (e + 1 - m)" arbitrary: m s)
  case 0
  then have "[m..e] = []" by simp
  then show ?case by simp
next
  case (Suc n)
  then have me: "m \<le> e" by linarith
  then have up: "[m..e] = m # [m + 1..e]" by (rule upto_rec1)
  let ?r = "lr a * gamma a ^ nat (m - 1)"
  have n: "n = nat (e + 1 - (m + 1))" using Suc.hyps(2) by linarith
  have pw: "?r * gamma a = lr a * gamma a ^ nat (m + 1 - 1)"
  proof -
    have "nat (m + 1 - 1) = Suc (nat (m - 1))" using Suc.prems(1) by linarith
    then show ?thesis by simp
  qed
  note eb = epoch_body_sched[OF Suc.prems(2), of T a trL teL m]
  show ?case
  proof (cases "train (pinned T ?r) a trL m (s\<lparr>cur_lr := ?r\<rparr>)")
    case (Pair e1 r1)
    show ?thesis
    proof (cases r1)
      case (Inl err)
      then show ?thesis using Pair eb up by (simp add: Let_def)
    next
      case (Inr s1)
      show ?thesis
      proof (cases "test T teL s1")
        case te: (Pair e2 r2)
        show ?thesis
        proof (cases r2)
          case (Inl err)
          then show ?thesis using Pair Inr te eb up by (simp add: Let_def)
        next
          case r2: (Inr s2)
          let ?s3 = "s2\<lparr>last_epoch := Suc (last_epoch s2), cur_lr := ?r * gamma a\<rparr>"
          have "cur_lr ?s3 = lr a * gamma a ^ nat (m + 1 - 1)" using pw by simp
          from Suc.hyps(1)[OF n _ this]
          have ih: "epochs_loop T a trL teL [m + 1..e] ?s3 =
                    sched_epochs_loop T a trL teL [m + 1..e] ?s3"
            using Suc.prems(1) by simp
          show ?thesis using Pair Inr te r2 eb up ih
            by (simp add: Let_def split: prod.splits)
        qed
      qed
    qed
  qed
qed

lemma main_sched: "main T a g dtr dte = sched_main T a g dtr dte"
proof (cases "initialise T a g dtr dte")
  case (Inl e)
  then show ?thesis by (simp add: main_def sched_main_def)
next
  case (Inr tup)
  obtain trL teL s0 where tup: "tup = (trL, teL, s0)" by (cases tup)
  have "cur_lr s0 = lr a * gamma a ^ nat (1 - 1)"
    using initialise_lr[of T a g dtr dte trL teL s0] Inr tup by simp
  then have "epochs_loop T a trL teL [1..epochs a] s0 =
             sched_epochs_loop T a trL teL [1..epochs a] s0"
    by (intro epochs_loop_sched) simp_all
  then show ?thesis using Inr tup by (simp add: main_def sched_main_def)
qed

text \<open>
  Claim C1. In every run, each optimizer step of epoch \<open>k\<close> (counted from 1) carries the
  learning rate \<open>lr * gamma ^ (k - 1)\<close>, and that is the rate the optimizer works at: the
  run is the run with the schedule in closed form, in which epoch \<open>k\<close> trains with an
  optimizer fixed at \<open>lr * gamma ^ (k - 1)\<close>. A run that completes consists of one
  segment per epoch: the events of the training pass, then those of the evaluation pass,
  then exactly one schedule step, which multiplies the learning rate by \<open>gamma\<close>; the
  optional save follows the last segment.
\<close>

theorem C1_learning_rate_schedule:
  assumes "main T a g dtr dte = (evs, r)"
  shows "sched_main T a g dtr dte = (evs, r) \<and>
         (\<forall>k i x b. OptStep k i x b \<in> set evs \<longrightarrow>
            1 \<le> k \<and> k \<le> epochs a \<and> x = lr a * gamma a ^ nat (k - 1)) \<and>
         (\<forall>s. r = Inr s \<longrightarrow>
            (\<exists>segs. length segs = nat (epochs a) \<and>
               evs = concat (map (\<lambda>j. fst (segs ! j) @ snd (segs ! j) @
                        [SchedStep (lr a * gamma a ^ j) (lr a * gamma a ^ Suc j)])
                        [0..<nat (epochs a)]) @
                     (if save_model a then [Saved ''mnist_cnn.pt'' (params s)] else []) \<and>
               (\<forall>k\<in>{1..epochs a}.
                  list_all (train_event k (lr a * gamma a ^ nat (k - 1))) (fst (segs ! nat (k - 1))) \<and>
                  list_all eval_event (snd (segs ! nat (k - 1))))))"
proof -
  have "sched_main T a g dtr dte = (evs, r)"
    using assms by (simp only: main_sched)
  then show ?thesis using schedule_trace[OF assms] by blast
qed

theorem C1_learning_rate_schedule_witness:
  "main lib0 args0 7 data0 data0 = (trace0, Inr final0) \<and>
   sched_main lib0 args0 7 data0 data0 = (trace0, Inr final0) \<and>
   OptStep 2 1 (1 / 2) [(10, 0)] \<in> set trace0 \<and>
   (1 / 2 :: real) = lr args0 * gamma args0 ^ nat (2 - 1) \<and>
   (\<exists>segs. length segs = nat (epochs args0) \<and>
      trace0 = concat (map (\<lambda>j. fst (segs ! j) @ snd (segs ! j) @
                 [SchedStep (lr args0 * gamma args0 ^ j) (lr args0 * gamma args0 ^ Suc j)])
                 [0..<nat (epochs args0)]) @
               (if save_model args0 then [Saved ''mnist_cnn.pt'' (params final0)] else []) \<and>
      (\<forall>k\<in>{1..epochs args0}.
         list_all (train_event k (lr args0 * gamma args0 ^ nat (k - 1))) (fst (segs ! nat (k - 1))) \<and>
         list_all eval_event (snd (segs ! nat (k - 1)))))"
proof -
  have m: "main lib0 args0 7 data0 data0 = (trace0, Inr final0)" by (rule main0)
  have mem: "OptStep 2 1 (1 / 2) [(10, 0)] \<in> set trace0" by (simp add: trace0_def)
  note inst = C1_learning_rate_schedule[OF m]
  have "sched_main lib0 args0 7 data0 data0 = (trace0, Inr final0)" using inst by blast
  moreover have "(1 / 2 :: real) = lr args0 * gamma args0 ^ nat (2 - 1)"
    using inst mem by blast
  moreover have "\<exists>segs. length segs = nat (epochs args0) \<and>
      trace0 = concat (map (\<lambda>j. fst (segs ! j) @ snd (segs ! j) @
                 [SchedStep (lr args0 * gamma args0 ^ j) (lr args0 * gamma args0 ^ Suc j)])
                 [0..<nat (epochs args0)]) @
               (if save_model args0 then [Saved ''mnist_cnn.pt'' (params final0)] else []) \<and>
      (\<forall>k\<in>{1..epochs args0}.
         list_all (train_event k (lr args0 * gamma args0 ^ nat (k - 1))) (fst (segs ! nat (k - 1))) \<and>
         list_all eval_event (snd (segs ! nat (k - 1))))"
    using inst by blast
  ultimately show ?thesis using m mem by blast
qed

subsection \<open>Dry runs\<close>

lemma mset_rotate1: "mset (rotate1 xs) = mset xs"
  by (cases xs) simp_all

lemma shuffle_ok_lib0: "shuffle_ok lib0"
  by (simp add: shuffle_ok_def lib0_def mset_rotate1)

text \<open>
  Claim C2. With \<open>dry_run\<close> set and a log interval of at least 1, a training pass over a
  non-empty batch sequence performs the optimizer step of batch 0, prints its progress
  line and stops, whatever the batch size and however many batches follow (a failure
  of the numeric library in that batch aborts instead). The evaluation pass of the same
  epoch still visits every batch of the evaluation loader, hence every evaluation
  sample.
\<close>

theorem C2_dry_run_single_batch:
  assumes "dry_run a" and "1 \<le> log_interval a"
    and "iter_loader T trL (gen s) = (b0 # bs, g1)"
    and "shuffle_ok T" and "0 < bsize teL"
  shows "train T a trL ep s =
           (case fit_batch T (cur_lr s) b0 (params s, opt_state s, g1) of
              Inl e \<Rightarrow> ([], Inl e)
            | Inr (loss, p, ost, g) \<Rightarrow>
                ([OptStep ep 0 (cur_lr s) b0, TrainObs ep 0 (length (dataset trL)) 0 loss],
                 Inr (s\<lparr>training := True, params := p, opt_state := ost, gen := g\<rparr>))) \<and>
         (\<forall>evs s'. epoch_body T a trL teL ep s = (evs, Inr s') \<longrightarrow>
            train_batches evs = [(ep, 0, b0)] \<and>
            (\<exists>tr s1. train T a trL ep s = (tr, Inr s1) \<and>
                      eval_batches evs = fst (iter_loader T teL (gen s1))) \<and>
            mset (concat (eval_batches evs)) = mset (dataset teL))"
proof (intro conjI allI impI)
  show tr: "train T a trL ep s =
           (case fit_batch T (cur_lr s) b0 (params s, opt_state s, g1) of
              Inl e \<Rightarrow> ([], Inl e)
            | Inr (loss, p, ost, g) \<Rightarrow>
                ([OptStep ep 0 (cur_lr s) b0, TrainObs ep 0 (length (dataset trL)) 0 loss],
                 Inr (s\<lparr>training := True, params := p, opt_state := ost, gen := g\<rparr>)))"
    by (rule train_dry_run[OF assms(1-3)])
  fix evs s' assume eb: "epoch_body T a trL teL ep s = (evs, Inr s')"
  then obtain e1 s1 e2 s2 where
    t1: "train T a trL ep s = (e1, Inr s1)" and
    t2: "test T teL s1 = (e2, Inr s2)" and
    evs: "evs = e1 @ e2 @ [SchedStep (cur_lr s2) (cur_lr (scheduler_step 1 (gamma a) s2))]"
    by (auto simp: epoch_body_def Let_def split: prod.splits sum.splits)
  from t1 tr obtain loss where e1: "e1 = [OptStep ep 0 (cur_lr s) b0, TrainObs ep 0 (length (dataset trL)) 0 loss]"
    by (auto split: sum.splits)
  have e2t: "train_batches e2 = []" using test_events[OF t2] by (rule train_batches_eval)
  have e2e: "eval_batches e2 = fst (iter_loader T teL (gen s1))" by (rule test_eval_batches[OF t2])
  show "train_batches evs = [(ep, 0, b0)]"
    using evs e1 e2t by (simp add: train_batches_append)
  have ev: "eval_batches evs = fst (iter_loader T teL (gen s1))"
    using evs e1 e2e by (simp add: eval_batches_append)
  then show "\<exists>tr s1. train T a trL ep s = (tr, Inr s1) \<and>
                      eval_batches evs = fst (iter_loader T teL (gen s1))"
    using t1 by blast
  show "mset (concat (eval_batches evs)) = mset (dataset teL)"
    unfolding ev by (rule iter_loader_all[OF assms(4,5)])
qed

theorem C2_dry_run_single_batch_witness:
  "dry_run dry0 \<and> 1 \<le> log_interval dry0 \<and>
   iter_loader lib0 loader0 (gen init0) = ([(12, 0), (11, 1)] # [[(10, 0)]], 3) \<and>
   shuffle_ok lib0 \<and> 0 < bsize loader0 \<and>
   train lib0 dry0 loader0 1 init0 =
     ([OptStep 1 0 1 [(12, 0), (11, 1)], TrainObs 1 0 3 0 2],
      Inr (init0\<lparr>training := True, params := 2, opt_state := 1, gen := 3\<rparr>)) \<and>
   (\<exists>evs s'. epoch_body lib0 dry0 loader0 loader0 1 init0 = (evs, Inr s') \<and>
      train_batches evs = [(1, 0, [(12, 0), (11, 1)])] \<and>
      mset (concat (eval_batches evs)) = mset (dataset loader0))"
proof -
  have h1: "dry_run dry0" and h2: "1 \<le> log_interval dry0"
    by (simp_all add: dry0_def args0_def)
  have h3: "iter_loader lib0 loader0 (gen init0) = ([(12, 0), (11, 1)] # [[(10, 0)]], 3)"
    by (simp add: iter_loader_def lib0_def loader0_def init0_def data0_def)
  have h4: "shuffle_ok lib0" by (rule shuffle_ok_lib0)
  have h5: "0 < bsize loader0" by (simp add: loader0_def)
  note inst = C2_dry_run_single_batch[OF h1 h2 h3 h4 h5, where ep = 1]
  have t: "train lib0 dry0 loader0 1 init0 =
     ([OptStep 1 0 1 [(12, 0), (11, 1)], TrainObs 1 0 3 0 2],
      Inr (init0\<lparr>training := True, params := 2, opt_state := 1, gen := 3\<rparr>))"
    using inst by (simp add: lib0_def init0_def loader0_def data0_def)
  obtain evs r where e: "epoch_body lib0 dry0 loader0 loader0 1 init0 = (evs, r)"
    by (cases "epoch_body lib0 dry0 loader0 loader0 1 init0")
  have "\<exists>s'. r = Inr s'"
    using e by (auto simp: run_defs dry0_def loader0_def init0_def)
  then obtain s' where e': "epoch_body lib0 dry0 loader0 loader0 1 init0 = (evs, Inr s')"
    using e by blast
  have "train_batches evs = [(1, 0, [(12, 0), (11, 1)])] \<and>
      mset (concat (eval_batches evs)) = mset (dataset loader0)"
    using inst e' by blast
  then show ?thesis using h1 h2 h3 h4 h5 t e' by blast
qed

subsection \<open>The evaluation pass\<close>

lemma zip_rows_labels:
  "zip (map f b) (map g b) = map (\<lambda>z. (f z, g z)) b"
  by (induction b) auto

lemma nll_sum_batch:
  "nll_sum (map (\<lambda>(x, y). h x) b) (map snd b) = Inr l \<Longrightarrow>
     l = sum_list (map (sample_nll h) b)"
  by (simp add: nll_sum_def sample_nll_def zip_rows_labels o_def split_def split: if_splits)

lemma nll_sum_labels:
  "nll_sum (map (\<lambda>(x, y). h x) b) (map snd b) = Inr l \<Longrightarrow>
     \<forall>(x, y)\<in>set b. y < length (h x)"
  by (auto simp: nll_sum_def zip_rows_labels list_ex_iff split: if_splits)

lemma count_eq_le: "count_eq pred target \<le> length target"
  unfolding count_eq_def
  by (rule order_trans[OF length_filter_le]) simp

lemma test_loop_result:
  "test_loop f p bs (l0, c0) = (evs, Inr (l, c)) \<Longrightarrow>
     l = l0 + sum_list (map (sample_nll (f p)) (concat bs)) \<and>
     c0 \<le> c \<and> c \<le> c0 + length (concat bs) \<and>
     (\<forall>(x, y)\<in>set (concat bs). y < length (f p x))"
proof (induction bs arbitrary: l0 c0 evs)
  case Nil
  then show ?case by simp
next
  case (Cons b bs)
  from Cons.prems obtain lb evs' where
    nb: "nll_sum (map (\<lambda>(x, y). f p x) b) (map snd b) = Inr lb" and
    rest: "test_loop f p bs (l0 + lb, c0 + count_eq (map argmax (map (\<lambda>(x, y). f p x) b)) (map snd b))
             = (evs', Inr (l, c))"
    by (auto simp: Let_def split: sum.splits prod.splits)
  let ?k = "count_eq (map argmax (map (\<lambda>(x, y). f p x) b)) (map snd b)"
  have k: "?k \<le> length b" using count_eq_le[of _ "map snd b"] by simp
  from Cons.IH[OF rest] have
    "l = l0 + lb + sum_list (map (sample_nll (f p)) (concat bs))" and
    "c0 + ?k \<le> c" and "c \<le> c0 + ?k + length (concat bs)" and
    "\<forall>(x, y)\<in>set (concat bs). y < length (f p x)" by auto
  then show ?case using nll_sum_batch[where h = "f p", OF nb] nll_sum_labels[where h = "f p", OF nb] k by auto
qed

lemma test_loop_take:
  "test_loop f p bs acc = (evs, Inr res) \<Longrightarrow> \<exists>evs' res'. test_loop f p (take j bs) acc = (evs', Inr res')"
proof (induction bs arbitrary: acc evs j)
  case Nil
  then show ?case by simp
next
  case (Cons b bs)
  show ?case
  proof (cases j)
    case 0
    then show ?thesis by simp
  next
    case (Suc j')
    obtain l0 c0 where acc: "acc = (l0, c0)" by (cases acc)
    from Cons.prems acc obtain lb evs1 where
      nb: "nll_sum (map (\<lambda>(x, y). f p x) b) (map snd b) = Inr lb" and
      rest: "test_loop f p bs (l0 + lb, c0 + count_eq (map argmax (map (\<lambda>(x, y). f p x) b)) (map snd b))
             = (evs1, Inr res)"
      by (auto simp: Let_def split: sum.splits prod.splits)
    from Cons.IH[OF rest, of j'] obtain evs' res' where
      "test_loop f p (take j' bs) (l0 + lb, c0 + count_eq (map argmax (map (\<lambda>(x, y). f p x) b)) (map snd b))
         = (evs', Inr res')" by blast
    then show ?thesis using Suc acc nb by (simp add: Let_def)
  qed
qed

lemma sum_list_mset_cong:
  "mset xs = mset ys \<Longrightarrow> sum_list (map (g :: 'a \<Rightarrow> real) xs) = sum_list (map g ys)"
proof -
  assume "mset xs = mset ys"
  then have "mset (map g xs) = mset (map g ys)" by (metis mset_map)
  then have "sum_mset (mset (map g xs)) = sum_mset (mset (map g ys))" by simp
  then show ?thesis by (simp only: sum_mset_sum_list)
qed

lemma sample_nll_nonneg:
  assumes "\<forall>v\<in>set (h x). v \<le> 0" and "y < length (h x)"
  shows "0 \<le> sample_nll h (x, y)"
  using assms by (simp add: sample_nll_def)

lemma test_unfold:
  assumes "test T L s = (evs, Inr s')"
  shows "\<exists>evs0 l c. test_loop (forward T) (params s) (fst (iter_loader T L (gen s))) (0, 0)
                       = (evs0, Inr (l, c)) \<and>
           dataset L \<noteq> [] \<and>
           evs = evs0 @ [TestObs (l / real (length (dataset L))) c (length (dataset L))
                           (100 * real c / real (length (dataset L)))] \<and>
           s' = s\<lparr>training := False, gen := snd (iter_loader T L (gen s))\<rparr>"
  using assms
  by (auto simp: test_def Let_def split: prod.splits sum.splits if_splits)

lemma length_concat_take: "length (concat (take j bs)) \<le> length (concat bs)"
proof -
  have "concat bs = concat (take j bs) @ concat (drop j bs)"
    by (metis append_take_drop_id concat_append)
  then show ?thesis by (metis le_add1 length_append)
qed

lemma iter_loader_length:
  assumes "shuffle_ok T" and "0 < bsize L"
  shows "length (concat (fst (iter_loader T L g))) = length (dataset L)"
  using iter_loader_all[OF assms, of g] by (metis size_mset)

lemma iter_loader_set:
  assumes "shuffle_ok T" and "0 < bsize L"
  shows "set (concat (fst (iter_loader T L g))) = set (dataset L)"
  using iter_loader_all[OF assms, of g] by (metis set_mset_mset)

lemma test0:
  "test lib0 loader0 init0 = (eval0, Inr (init0\<lparr>training := False, gen := 3\<rparr>))"
  by (simp add: run_defs loader0_def init0_def eval0_def)

lemma loader0_pos: "0 < bsize loader0"
  by (simp add: loader0_def)

text \<open>
  Claim C3. An evaluation pass that completes (so the split is non-empty) has
  accumulated the sum of the per-sample negative log-likelihoods over all samples of
  the evaluation dataset, and reports that sum divided by the number of samples of the
  dataset, whatever the batch size: a shorter last batch changes nothing.
\<close>

theorem C3_average_loss:
  assumes "shuffle_ok T" and "0 < bsize L" and "test T L s = (evs, Inr s')"
  shows "\<exists>correct.
           snd (test_loop (forward T) (params s) (fst (iter_loader T L (gen s))) (0, 0)) =
             Inr (sum_list (map (sample_nll (forward T (params s))) (dataset L)), correct) \<and>
           dataset L \<noteq> [] \<and>
           last evs = TestObs (sum_list (map (sample_nll (forward T (params s))) (dataset L))
                                 / real (length (dataset L)))
                        correct (length (dataset L))
                        (100 * real correct / real (length (dataset L)))"
proof -
  let ?bs = "fst (iter_loader T L (gen s))"
  from test_unfold[OF assms(3)] obtain evs0 l c where
    loop: "test_loop (forward T) (params s) ?bs (0, 0) = (evs0, Inr (l, c))" and
    ne: "dataset L \<noteq> []" and
    evs: "evs = evs0 @ [TestObs (l / real (length (dataset L))) c (length (dataset L))
                           (100 * real c / real (length (dataset L)))]"
    by blast
  from test_loop_result[OF loop]
  have "l = sum_list (map (sample_nll (forward T (params s))) (concat ?bs))" by simp
  also have "\<dots> = sum_list (map (sample_nll (forward T (params s))) (dataset L))"
    by (rule sum_list_mset_cong) (rule iter_loader_all[OF assms(1,2)])
  finally have l: "l = sum_list (map (sample_nll (forward T (params s))) (dataset L))" .
  show ?thesis using loop ne evs l by (intro exI[of _ c]) simp
qed

theorem C3_average_loss_witness:
  "shuffle_ok lib0 \<and> 0 < bsize loader0 \<and>
   test lib0 loader0 init0 = (eval0, Inr (init0\<lparr>training := False, gen := 3\<rparr>)) \<and>
   length (dataset loader0) mod bsize loader0 \<noteq> 0 \<and>
   (\<exists>correct.
      snd (test_loop (forward lib0) (params init0) (fst (iter_loader lib0 loader0 (gen init0))) (0, 0)) =
        Inr (sum_list (map (sample_nll (forward lib0 (params init0))) (dataset loader0)), correct) \<and>
      dataset loader0 \<noteq> [] \<and>
      last eval0 = TestObs (sum_list (map (sample_nll (forward lib0 (params init0))) (dataset loader0))
                              / real (length (dataset loader0)))
                     correct (length (dataset loader0))
                     (100 * real correct / real (length (dataset loader0))))"
proof -
  have "length (dataset loader0) mod bsize loader0 \<noteq> 0"
    by (simp add: loader0_def data0_def)
  then show ?thesis
    using shuffle_ok_lib0 loader0_pos test0
      C3_average_loss[OF shuffle_ok_lib0 loader0_pos test0]
    by blast
qed

text \<open>
  Claim C5. After any number of evaluation batches the count of correct predictions is
  at most the number of samples processed so far, hence at most the size of the
  evaluation dataset; the reported accuracy lies between 0 and 100, and the reported
  average loss is non-negative when every output row of the model on the dataset has
  only entries \<open>\<le> 0\<close>.
\<close>

theorem C5_evaluation_bounds:
  assumes "shuffle_ok T" and "0 < bsize L" and "test T L s = (evs, Inr s')"
  shows "(\<forall>j l c. snd (test_loop (forward T) (params s)
                          (take j (fst (iter_loader T L (gen s)))) (0, 0)) = Inr (l, c) \<longrightarrow>
            c \<le> length (concat (take j (fst (iter_loader T L (gen s))))) \<and>
            c \<le> length (dataset L)) \<and>
         (\<exists>avg c pct. last evs = TestObs avg c (length (dataset L)) pct \<and>
            c \<le> length (dataset L) \<and> 0 \<le> pct \<and> pct \<le> 100 \<and>
            ((\<forall>(x, y)\<in>set (dataset L). \<forall>v\<in>set (forward T (params s) x). v \<le> 0) \<longrightarrow> 0 \<le> avg))"
proof -
  let ?bs = "fst (iter_loader T L (gen s))"
  let ?n = "length (dataset L)"
  let ?h = "forward T (params s)"
  have len: "length (concat ?bs) = ?n" by (rule iter_loader_length[OF assms(1,2)])
  have part1: "c \<le> length (concat (take j ?bs)) \<and> c \<le> ?n"
    if "snd (test_loop (forward T) (params s) (take j ?bs) (0, 0)) = Inr (l, c)" for j l c
  proof -
    have "test_loop (forward T) (params s) (take j ?bs) (0, 0) =
            (fst (test_loop (forward T) (params s) (take j ?bs) (0, 0)), Inr (l, c))"
      using that by (metis prod.collapse)
    from test_loop_result[OF this] have "c \<le> length (concat (take j ?bs))" by simp
    then show ?thesis using length_concat_take[of j ?bs] len by linarith
  qed
  from test_unfold[OF assms(3)] obtain evs0 l c where
    loop: "test_loop (forward T) (params s) ?bs (0, 0) = (evs0, Inr (l, c))" and
    ne: "dataset L \<noteq> []" and
    evs: "evs = evs0 @ [TestObs (l / real ?n) c ?n (100 * real c / real ?n)]"
    by blast
  from test_loop_result[OF loop] have
    l: "l = sum_list (map (sample_nll ?h) (concat ?bs))" and
    c: "c \<le> ?n" and
    lab: "\<forall>(x, y)\<in>set (concat ?bs). y < length (?h x)"
    using len by auto
  have npos: "0 < real ?n" using ne by simp
  have pct0: "0 \<le> 100 * real c / real ?n" by simp
  have "real c \<le> real ?n" using c by simp
  then have "100 * real c \<le> 100 * real ?n" by simp
  then have pct100: "100 * real c / real ?n \<le> 100"
    using npos by (simp add: divide_le_eq)
  have avg: "0 \<le> l / real ?n"
    if neg: "\<forall>(x, y)\<in>set (dataset L). \<forall>v\<in>set (?h x). v \<le> 0"
  proof -
    have "0 \<le> sample_nll ?h z" if z: "z \<in> set (concat ?bs)" for z
    proof -
      obtain x y where xy: "z = (x, y)" by (cases z)
      have "z \<in> set (dataset L)" using z iter_loader_set[OF assms(1,2)] by blast
      with neg xy have "\<forall>v\<in>set (?h x). v \<le> 0" by blast
      moreover have "y < length (?h x)" using lab z xy by blast
      ultimately show ?thesis unfolding xy by (rule sample_nll_nonneg)
    qed
    then have "0 \<le> l" unfolding l by (intro sum_list_nonneg) auto
    then show ?thesis by simp
  qed
  have "last evs = TestObs (l / real ?n) c ?n (100 * real c / real ?n)" using evs by simp
  then have "\<exists>avg c pct. last evs = TestObs avg c ?n pct \<and>
            c \<le> ?n \<and> 0 \<le> pct \<and> pct \<le> 100 \<and>
            ((\<forall>(x, y)\<in>set (dataset L). \<forall>v\<in>set (?h x). v \<le> 0) \<longrightarrow> 0 \<le> avg)"
    using c pct0 pct100 avg by blast
  then show ?thesis using part1 by blast
qed

theorem C5_evaluation_bounds_witness:
  "shuffle_ok lib0 \<and> 0 < bsize loader0 \<and>
   test lib0 loader0 init0 = (eval0, Inr (init0\<lparr>training := False, gen := 3\<rparr>)) \<and>
   list_all (\<lambda>(x, y). list_all (\<lambda>v. v \<le> 0) (forward lib0 (params init0) x))
     (dataset loader0) \<and>
   snd (test_loop (forward lib0) (params init0)
          (take 1 (fst (iter_loader lib0 loader0 (gen init0)))) (0, 0)) = Inr (3, 1) \<and>
   (1::nat) \<le> length (concat (take 1 (fst (iter_loader lib0 loader0 (gen init0))))) \<and>
   (1::nat) \<le> length (dataset loader0) \<and>
   (\<exists>avg c pct. last eval0 = TestObs avg c (length (dataset loader0)) pct \<and>
      c \<le> length (dataset loader0) \<and> 0 \<le> pct \<and> pct \<le> 100 \<and> 0 \<le> avg)"
proof -
  note inst = C5_evaluation_bounds[OF shuffle_ok_lib0 loader0_pos test0]
  have neg: "\<forall>(x, y)\<in>set (dataset loader0). \<forall>v\<in>set (forward lib0 (params init0) x). v \<le> 0"
    by (simp add: lib0_def)
  have pre: "snd (test_loop (forward lib0) (params init0)
          (take 1 (fst (iter_loader lib0 loader0 (gen init0)))) (0, 0)) = Inr (3, 1)"
    by (simp add: run_defs loader0_def init0_def)
  have b: "(1::nat) \<le> length (concat (take 1 (fst (iter_loader lib0 loader0 (gen init0))))) \<and>
    (1::nat) \<le> length (dataset loader0)"
    using inst pre by blast
  have "\<exists>avg c pct. last eval0 = TestObs avg c (length (dataset loader0)) pct \<and>
      c \<le> length (dataset loader0) \<and> 0 \<le> pct \<and> pct \<le> 100 \<and> 0 \<le> avg"
    using inst neg by blast
  moreover have "list_all (\<lambda>(x, y). list_all (\<lambda>v. v \<le> 0) (forward lib0 (params init0) x))
     (dataset loader0)"
    by (simp add: lib0_def loader0_def data0_def)
  ultimately show ?thesis using shuffle_ok_lib0 loader0_pos test0 pre b by blast
qed

text \<open>
  Claim C9. An evaluation pass leaves the parameters, the optimizer state, the learning
  rate and the scheduler counter as they were and performs no optimizer step: of the
  model and optimizer only the train/eval flag changes (the random generator, from which
  a shuffling loader draws its order, is the one other component that may differ).
\<close>

theorem C9_evaluation_frame:
  assumes "test T L s = (evs, Inr s')"
  shows "params s' = params s \<and> opt_state s' = opt_state s \<and> cur_lr s' = cur_lr s \<and>
         last_epoch s' = last_epoch s \<and> training s' = False \<and>
         s' = s\<lparr>training := False, gen := gen s'\<rparr> \<and>
         train_batches evs = [] \<and> list_all eval_event evs"
proof -
  from test_unfold[OF assms] have "s' = s\<lparr>training := False, gen := snd (iter_loader T L (gen s))\<rparr>"
    by blast
  then have "params s' = params s \<and> opt_state s' = opt_state s \<and> cur_lr s' = cur_lr s \<and>
         last_epoch s' = last_epoch s \<and> training s' = False \<and>
         s' = s\<lparr>training := False, gen := gen s'\<rparr>" by simp
  moreover have "list_all eval_event evs" by (rule test_events[OF assms])
  moreover from this have "train_batches evs = []" by (rule train_batches_eval)
  ultimately show ?thesis by blast
qed

theorem C9_evaluation_frame_witness:
  "test lib0 loader0 init0 = (eval0, Inr (init0\<lparr>training := False, gen := 3\<rparr>)) \<and>
   params (init0\<lparr>training := False, gen := 3\<rparr>) = params init0 \<and>
   opt_state (init0\<lparr>training := False, gen := 3\<rparr>) = opt_state init0 \<and>
   cur_lr (init0\<lparr>training := False, gen := 3\<rparr>) = cur_lr init0 \<and>
   last_epoch (init0\<lparr>training := False, gen := 3\<rparr>) = last_epoch init0 \<and>
   training init0 \<and> \<not> training (init0\<lparr>training := False, gen := 3\<rparr>) \<and>
   train_batches eval0 = [] \<and> list_all eval_event eval0"
proof -
  have "training init0" by (simp add: init0_def)
  then show ?thesis using test0 C9_evaluation_frame[OF test0] by simp
qed

subsection \<open>Saving the model\<close>

lemma saves_append: "saves (xs @ ys) = saves xs @ saves ys"
  by (induction xs rule: saves.induct) auto

lemma completed_epochs_append:
  "completed_epochs (xs @ ys) = completed_epochs xs + completed_epochs ys"
  by (induction xs rule: completed_epochs.induct) auto

lemma saves_train: "list_all (train_event k r) evs \<Longrightarrow> saves evs = []"
  by (induction evs rule: saves.induct) auto

lemma saves_eval: "list_all eval_event evs \<Longrightarrow> saves evs = []"
  by (induction evs rule: saves.induct) auto

lemma completed_train: "list_all (train_event k r) evs \<Longrightarrow> completed_epochs evs = 0"
  by (induction evs rule: completed_epochs.induct) auto

lemma completed_eval: "list_all eval_event evs \<Longrightarrow> completed_epochs evs = 0"
  by (induction evs rule: completed_epochs.induct) auto

lemma epoch_body_counts:
  assumes "epoch_body T a trL teL ep s = (evs, r)"
  shows "saves evs = [] \<and>
         completed_epochs evs = (case r of Inl e \<Rightarrow> 0 | Inr s' \<Rightarrow> 1)"
proof -
  obtain tr r1 where tr: "train T a trL ep s = (tr, r1)" by (cases "train T a trL ep s")
  note trev = train_events[OF tr]
  show ?thesis
  proof (cases r1)
    case (Inl e)
    then have "evs = tr" "r = Inl e" using assms tr by (simp_all add: epoch_body_def)
    then show ?thesis using saves_train[OF trev] completed_train[OF trev] by simp
  next
    case (Inr s1)
    obtain te r2 where te: "test T teL s1 = (te, r2)" by (cases "test T teL s1")
    note teev = test_events[OF te]
    show ?thesis
      using assms tr te Inr saves_train[OF trev] completed_train[OF trev]
        saves_eval[OF teev] completed_eval[OF teev]
      by (cases r2)
         (auto simp: epoch_body_def Let_def saves_append completed_epochs_append)
  qed
qed

lemma epochs_loop_counts:
  "epochs_loop T a trL teL ks s = (evs, r) \<Longrightarrow>
     saves evs = [] \<and>
     (case r of Inl e \<Rightarrow> completed_epochs evs < length ks
              | Inr s' \<Rightarrow> completed_epochs evs = length ks)"
proof (induction ks arbitrary: s evs r)
  case Nil
  then show ?case by auto
next
  case (Cons ep ks)
  obtain e1 r1 where b: "epoch_body T a trL teL ep s = (e1, r1)"
    by (cases "epoch_body T a trL teL ep s")
  note c1 = epoch_body_counts[OF b]
  show ?case
  proof (cases r1)
    case (Inl err)
    then show ?thesis using Cons.prems b c1 by auto
  next
    case (Inr s1)
    obtain e2 r2 where l: "epochs_loop T a trL teL ks s1 = (e2, r2)"
      by (cases "epochs_loop T a trL teL ks s1")
    from Cons.IH[OF l] Cons.prems b Inr l c1 show ?thesis
      by (cases r2) (auto simp: saves_append completed_epochs_append)
  qed
qed

lemma main_fail0:
  "main lib0 fail0 7 data0 data0 = ([OptStep 1 0 1 [(12, 0), (11, 1)]], Inl ZeroDivisionError)"
  by (simp add: run_defs upto_rec1 fail0_def)

lemma initialise_noep0: "initialise lib0 noep0 7 data0 data0 = Inr (loader0, loader0, init0)"
  by (simp add: run_defs noep0_def loader0_def init0_def)

text \<open>
  Claim C7. A run writes a file exactly when \<open>save_model\<close> is set and the run ends
  without error, that is, after every configured epoch has run to its schedule step.
  The file is then written once, as the last event, under the name \<open>mnist_cnn.pt\<close>,
  and holds the parameters of the final state. A run that ends in an error (in the
  set-up or in a pass, with fewer epochs completed than configured) writes nothing.
\<close>

theorem C7_save_iff_completed:
  assumes "main T a g dtr dte = (evs, r)"
  shows "saves evs = (case r of Inl e \<Rightarrow> []
                      | Inr s \<Rightarrow> if save_model a then [(''mnist_cnn.pt'', params s)] else []) \<and>
         (\<forall>s. r = Inr s \<longrightarrow>
            completed_epochs evs = nat (epochs a) \<and>
            (save_model a \<longrightarrow> last evs = Saved ''mnist_cnn.pt'' (params s))) \<and>
         (\<forall>e. r = Inl e \<longrightarrow>
            (initialise T a g dtr dte = Inl e \<and> evs = []) \<or>
            completed_epochs evs < nat (epochs a))"
proof (cases "initialise T a g dtr dte")
  case (Inl e)
  with assms show ?thesis by (auto simp: main_def)
next
  case (Inr tup)
  then obtain trL teL s0 where ini: "initialise T a g dtr dte = Inr (trL, teL, s0)"
    by (cases tup) auto
  obtain e1 r1 where loop: "epochs_loop T a trL teL [1..epochs a] s0 = (e1, r1)"
    by (cases "epochs_loop T a trL teL [1..epochs a] s0")
  note c = epochs_loop_counts[OF loop]
  show ?thesis
  proof (cases r1)
    case (Inl err)
    then have "evs = e1" "r = Inl err" using assms ini loop by (simp_all add: main_def)
    then show ?thesis using c Inl by simp
  next
    case r1: (Inr s)
    then have r: "r = Inr s"
      and evs: "evs = e1 @ (if save_model a then [Saved ''mnist_cnn.pt'' (params s)] else [])"
      using assms ini loop by (auto simp: main_def split: if_splits)
    show ?thesis using c r1 r evs
      by (auto simp: saves_append completed_epochs_append)
  qed
qed

theorem C7_save_iff_completed_witness:
  "main lib0 args0 7 data0 data0 = (trace0, Inr final0) \<and> save_model args0 \<and>
   saves trace0 = [(''mnist_cnn.pt'', params final0)] \<and>
   completed_epochs trace0 = nat (epochs args0) \<and>
   last trace0 = Saved ''mnist_cnn.pt'' (params final0) \<and>
   main lib0 fail0 7 data0 data0 = ([OptStep 1 0 1 [(12, 0), (11, 1)]], Inl ZeroDivisionError) \<and>
   save_model fail0 \<and>
   saves [OptStep 1 0 1 [(12, 0), (11, 1)] :: (nat, real) event] = [] \<and>
   completed_epochs [OptStep 1 0 1 [(12, 0), (11, 1)] :: (nat, real) event] < nat (epochs fail0)"
proof -
  have s: "save_model args0" "save_model fail0" by (simp_all add: args0_def fail0_def)
  have ini: "initialise lib0 fail0 7 data0 data0 \<noteq> Inl ZeroDivisionError"
    by (simp add: run_defs fail0_def)
  have a: "saves trace0 = [(''mnist_cnn.pt'', params final0)] \<and>
   completed_epochs trace0 = nat (epochs args0) \<and>
   last trace0 = Saved ''mnist_cnn.pt'' (params final0)"
    using C7_save_iff_completed[OF main0] s by simp
  have b: "saves [OptStep 1 0 1 [(12, 0), (11, 1)] :: (nat, real) event] = [] \<and>
   completed_epochs [OptStep 1 0 1 [(12, 0), (11, 1)] :: (nat, real) event] < nat (epochs fail0)"
    using C7_save_iff_completed[OF main_fail0] ini by simp
  show ?thesis using main0 main_fail0 s a b by blast
qed

subsection \<open>Which loaders shuffle\<close>





lemma epoch_body_split:
  assumes "epoch_body T a trL teL k s = (evs, Inr s')"
  shows "\<exists>tr s1 te s2. train T a trL k s = (tr, Inr s1) \<and> test T teL s1 = (te, Inr s2) \<and>
           evs = tr @ te @ [SchedStep (cur_lr s2) (cur_lr s')] \<and>
           s' = scheduler_step 1 (gamma a) s2"
  using assms by (auto simp: epoch_body_def Let_def split: prod.splits sum.splits)

lemma train_batches_sched [simp]: "train_batches [SchedStep u v] = []"
  by simp


lemma initialise_loaders:
  assumes "initialise T a g dtr dte = Inr (trL, teL, s0)"
  shows "trL = \<lparr>dataset = dtr, bsize = nat (batch_size a), shuffle = use_cuda T a\<rparr> \<and>
         teL = \<lparr>dataset = dte, bsize = nat (test_batch_size a), shuffle = use_cuda T a\<rparr> \<and>
         gen s0 = snd (CNN T (manual_seed T (seed a))) \<and>
         params s0 = fst (CNN T (manual_seed T (seed a)))"
  using assms
  by (auto simp: initialise_def torch_manual_seed_def DataLoader_def Let_def
           split: sum.splits prod.splits if_splits)








subsection \<open>The set-up and runs without epochs\<close>

lemma DataLoader_plain:
  "DataLoader ds [''batch_size'' \<mapsto> IntV n] =
     (if n \<le> 0 then Inl ValueError
      else Inr \<lparr>dataset = ds, bsize = nat n, shuffle = False\<rparr>)"
  by (simp add: DataLoader_def)

lemma DataLoader_cuda:
  "DataLoader ds [''batch_size'' \<mapsto> IntV n, ''num_workers'' \<mapsto> IntV 1,
                  ''pin_memory'' \<mapsto> BoolV True, ''shuffle'' \<mapsto> BoolV True] =
     (if ds = [] then Inl ValueError
      else if n \<le> 0 then Inl ValueError
      else Inr \<lparr>dataset = ds, bsize = nat n, shuffle = True\<rparr>)"
  by (simp add: DataLoader_def)

lemma initialise_eq:
  "initialise T a g dtr dte =
     (if seed a < - (2 ^ 63) \<or> 2 ^ 64 - 1 < seed a then Inl RuntimeError
      else if use_cuda T a \<and> dtr = [] then Inl ValueError
      else if batch_size a \<le> 0 then Inl ValueError
      else if use_cuda T a \<and> dte = [] then Inl ValueError
      else if test_batch_size a \<le> 0 then Inl ValueError
      else if lr a < 0 then Inl ValueError
      else Inr (\<lparr>dataset = dtr, bsize = nat (batch_size a), shuffle = use_cuda T a\<rparr>,
                \<lparr>dataset = dte, bsize = nat (test_batch_size a), shuffle = use_cuda T a\<rparr>,
                \<lparr>params = fst (CNN T (manual_seed T (seed a))), training = True,
                 opt_state = Adadelta T (fst (CNN T (manual_seed T (seed a)))),
                 cur_lr = lr a, last_epoch = 0,
                 gen = snd (CNN T (manual_seed T (seed a)))\<rparr>))"
  by (cases "use_cuda T a")
     (simp_all add: initialise_def torch_manual_seed_def DataLoader_plain DataLoader_cuda Let_def
                    split: prod.splits)

lemma initialise_ok_iff:
  "(\<exists>trL teL s0. initialise T a g dtr dte = Inr (trL, teL, s0)) \<longleftrightarrow>
     (- (2 ^ 63) \<le> seed a \<and> seed a \<le> 2 ^ 64 - 1 \<and> 0 < batch_size a \<and> 0 < test_batch_size a \<and>
      0 \<le> lr a \<and> (use_cuda T a \<longrightarrow> dtr \<noteq> [] \<and> dte \<noteq> []))"
  unfolding initialise_eq by (auto simp: not_less not_le)

text \<open>
  Claim C10, with the set-up in it. With \<open>epochs \<le> 0\<close> a run performs no training pass,
  no evaluation pass and no schedule step. It ends in an error exactly when the set-up
  before the loop raises (a seed the generator does not take, a batch size that is not
  positive, a negative learning rate, or a shuffling loader over an empty dataset), and
  then it has no event: nothing is saved. Otherwise it ends without error in its initial
  state, and with \<open>save_model\<close> its only event is the save of the initial parameters,
  those the model constructor drew from the seeded generator.
\<close>

theorem C10_no_epochs:
  assumes "epochs a \<le> 0"
  shows "main T a g dtr dte =
           (case initialise T a g dtr dte of
              Inl e \<Rightarrow> ([], Inl e)
            | Inr (trL, teL, s0) \<Rightarrow>
                ((if save_model a then [Saved ''mnist_cnn.pt'' (params s0)] else []), Inr s0)) \<and>
         (\<forall>trL teL s0. initialise T a g dtr dte = Inr (trL, teL, s0) \<longrightarrow>
            params s0 = fst (CNN T (manual_seed T (seed a)))) \<and>
         ((\<exists>trL teL s0. initialise T a g dtr dte = Inr (trL, teL, s0)) \<longleftrightarrow>
            (- (2 ^ 63) \<le> seed a \<and> seed a \<le> 2 ^ 64 - 1 \<and> 0 < batch_size a \<and>
             0 < test_batch_size a \<and> 0 \<le> lr a \<and> (use_cuda T a \<longrightarrow> dtr \<noteq> [] \<and> dte \<noteq> [])))"
proof (intro conjI)
  have e: "[1..epochs a] = []" using assms by simp
  show "main T a g dtr dte =
           (case initialise T a g dtr dte of
              Inl e \<Rightarrow> ([], Inl e)
            | Inr (trL, teL, s0) \<Rightarrow>
                ((if save_model a then [Saved ''mnist_cnn.pt'' (params s0)] else []), Inr s0))"
  proof (cases "initialise T a g dtr dte")
    case (Inl err)
    then show ?thesis by (simp add: main_def)
  next
    case (Inr tup)
    obtain trL teL s0 where "tup = (trL, teL, s0)" by (cases tup)
    then show ?thesis using Inr e by (simp add: main_def)
  qed
  show "\<forall>trL teL s0. initialise T a g dtr dte = Inr (trL, teL, s0) \<longrightarrow>
            params s0 = fst (CNN T (manual_seed T (seed a)))"
  proof (intro allI impI)
    fix trL teL s0
    assume "initialise T a g dtr dte = Inr (trL, teL, s0)"
    from initialise_loaders[OF this]
    show "params s0 = fst (CNN T (manual_seed T (seed a)))" by simp
  qed
  show "(\<exists>trL teL s0. initialise T a g dtr dte = Inr (trL, teL, s0)) \<longleftrightarrow>
            (- (2 ^ 63) \<le> seed a \<and> seed a \<le> 2 ^ 64 - 1 \<and> 0 < batch_size a \<and>
             0 < test_batch_size a \<and> 0 \<le> lr a \<and> (use_cuda T a \<longrightarrow> dtr \<noteq> [] \<and> dte \<noteq> []))"
    by (rule initialise_ok_iff)
qed

theorem C10_no_epochs_witness:
  "epochs noep0 \<le> 0 \<and> save_model noep0 \<and>
   initialise lib0 noep0 7 data0 data0 = Inr (loader0, loader0, init0) \<and>
   main lib0 noep0 7 data0 data0 = ([Saved ''mnist_cnn.pt'' (params init0)], Inr init0) \<and>
   params init0 = fst (CNN lib0 (manual_seed lib0 (seed noep0))) \<and>
   epochs badbatch0 \<le> 0 \<and> \<not> 0 < batch_size badbatch0 \<and>
   initialise lib0 badbatch0 7 data0 data0 = Inl ValueError \<and>
   main lib0 badbatch0 7 data0 data0 = ([], Inl ValueError)"
proof -
  have e: "epochs noep0 \<le> 0" and s: "save_model noep0"
    by (simp_all add: noep0_def args0_def)
  have e': "epochs badbatch0 \<le> 0" and b: "\<not> 0 < batch_size badbatch0"
    by (simp_all add: badbatch0_def noep0_def args0_def)
  have i': "initialise lib0 badbatch0 7 data0 data0 = Inl ValueError"
    by (simp add: run_defs badbatch0_def noep0_def)
  have "main lib0 noep0 7 data0 data0 =
           (case initialise lib0 noep0 7 data0 data0 of
              Inl e \<Rightarrow> ([], Inl e)
            | Inr (trL, teL, s0) \<Rightarrow>
                ((if save_model noep0 then [Saved ''mnist_cnn.pt'' (params s0)] else []), Inr s0))"
    by (rule C10_no_epochs[OF e, THEN conjunct1])
  then have m: "main lib0 noep0 7 data0 data0 = ([Saved ''mnist_cnn.pt'' (params init0)], Inr init0)"
    by (simp only: initialise_noep0 sum.case prod.case s if_True)
  have p: "params init0 = fst (CNN lib0 (manual_seed lib0 (seed noep0)))"
    using C10_no_epochs[OF e, of lib0 7 data0 data0, THEN conjunct2, THEN conjunct1]
      initialise_noep0 by blast
  have "main lib0 badbatch0 7 data0 data0 =
           (case initialise lib0 badbatch0 7 data0 data0 of
              Inl e \<Rightarrow> ([], Inl e)
            | Inr (trL, teL, s0) \<Rightarrow>
                ((if save_model badbatch0 then [Saved ''mnist_cnn.pt'' (params s0)] else []), Inr s0))"
    by (rule C10_no_epochs[OF e', THEN conjunct1])
  then have m': "main lib0 badbatch0 7 data0 data0 = ([], Inl ValueError)"
    by (simp only: i' sum.case)
  note m p m'
  then show ?thesis using e s e' b i' initialise_noep0 by blast
qed

text \<open>
  Claim C10 as stated (no error whenever \<open>epochs \<le> 0\<close>, and the initial parameters saved
  with \<open>save_model\<close>) fails where the set-up raises: with no epochs, \<open>save_model\<close> and a
  batch size of zero the run ends in \<open>ValueError\<close> and has saved nothing.
\<close>

theorem C10_counterexample:
  "epochs badbatch0 \<le> 0 \<and> save_model badbatch0 \<and>
   main lib0 badbatch0 7 data0 data0 = ([], Inl ValueError)"
  by (simp add: run_defs badbatch0_def noep0_def)

subsection \<open>Two runs\<close>

lemma train_loop_sim:
  assumes fg: "\<And>r1 r2 b p1 o1 p2 o2 g l1 p1' o1' g1 l2 p2' o2' g2.
         fit_batch T1 r1 b (p1, o1, g) = Inr (l1, p1', o1', g1) \<Longrightarrow>
         fit_batch T2 r2 b (p2, o2, g) = Inr (l2, p2', o2', g2) \<Longrightarrow> g1 = g2"
  shows "train_loop T1 a ep L1 ebs s1 = (e1, Inr s1') \<Longrightarrow>
         train_loop T2 a ep L2 ebs s2 = (e2, Inr s2') \<Longrightarrow> gen s1 = gen s2 \<Longrightarrow>
         train_batches e1 = train_batches e2 \<and> gen s1' = gen s2'"
proof (induction ebs arbitrary: s1 s2 e1 e2)
  case Nil
  then show ?case by simp
next
  case (Cons ib ebs)
  obtain i b where ib: "ib = (i, b)" by (cases ib)
  from Cons.prems(1) ib obtain l1 p1 o1 g1 where
    f1: "fit_batch T1 (cur_lr s1) b (params s1, opt_state s1, gen s1) = Inr (l1, p1, o1, g1)"
    by (auto split: sum.splits)
  from Cons.prems(2) ib obtain l2 p2 o2 g2 where
    f2: "fit_batch T2 (cur_lr s2) b (params s2, opt_state s2, gen s2) = Inr (l2, p2, o2, g2)"
    by (auto split: sum.splits)
  have g: "g1 = g2" using fg[OF f1 f2[folded Cons.prems(3)]] .
  let ?t1 = "s1\<lparr>params := p1, opt_state := o1, gen := g1\<rparr>"
  let ?t2 = "s2\<lparr>params := p2, opt_state := o2, gen := g2\<rparr>"
  have li: "log_interval a \<noteq> 0"
    using Cons.prems(1) ib f1 by (auto simp: Let_def split: if_splits)
  show ?case
  proof (cases "int i mod log_interval a = 0 \<and> dry_run a")
    case True
    then show ?thesis using Cons.prems ib f1 f2 g li by (auto simp: Let_def)
  next
    case False
    from Cons.prems(1) ib f1 li False obtain e1' where
      r1: "train_loop T1 a ep L1 ebs ?t1 = (e1', Inr s1')" and
      b1: "train_batches e1 = (ep, i, b) # train_batches e1'"
      by (auto simp: Let_def split: prod.splits if_splits)
    from Cons.prems(2) ib f2 li False obtain e2' where
      r2: "train_loop T2 a ep L2 ebs ?t2 = (e2', Inr s2')" and
      b2: "train_batches e2 = (ep, i, b) # train_batches e2'"
      by (auto simp: Let_def split: prod.splits if_splits)
    have "gen ?t1 = gen ?t2" using g by simp
    from Cons.IH[OF r1 r2 this] show ?thesis using b1 b2 by simp
  qed
qed

lemma iter_loader_same:
  "shuffled T1 = shuffled T2 \<Longrightarrow> iter_loader T1 L g = iter_loader T2 L g"
  by (simp add: iter_loader_def)

lemma epochs_loop_sim:
  assumes ss: "same_sampling T1 T2"
  shows "epochs_loop T1 a trL teL ks s1 = (e1, Inr s1') \<Longrightarrow>
         epochs_loop T2 a trL teL ks s2 = (e2, Inr s2') \<Longrightarrow> gen s1 = gen s2 \<Longrightarrow>
         train_batches e1 = train_batches e2 \<and> eval_batches e1 = eval_batches e2"
proof (induction ks arbitrary: s1 s2 e1 e2)
  case Nil
  then show ?case by simp
next
  case (Cons k ks)
  have sh: "shuffled T1 = shuffled T2" using ss by (simp add: same_sampling_def)
  have fg: "\<And>r1 r2 b p1 o1 p2 o2 g l1 p1' o1' g1 l2 p2' o2' g2.
         fit_batch T1 r1 b (p1, o1, g) = Inr (l1, p1', o1', g1) \<Longrightarrow>
         fit_batch T2 r2 b (p2, o2, g) = Inr (l2, p2', o2', g2) \<Longrightarrow> g1 = g2"
    using ss unfolding same_sampling_def by blast
  from Cons.prems(1) obtain a1 m1 c1 where
    b1: "epoch_body T1 a trL teL k s1 = (a1, Inr m1)" and
    l1: "epochs_loop T1 a trL teL ks m1 = (c1, Inr s1')" and e1: "e1 = a1 @ c1"
    by (auto split: prod.splits sum.splits)
  from Cons.prems(2) obtain a2 m2 c2 where
    b2: "epoch_body T2 a trL teL k s2 = (a2, Inr m2)" and
    l2: "epochs_loop T2 a trL teL ks m2 = (c2, Inr s2')" and e2: "e2 = a2 @ c2"
    by (auto split: prod.splits sum.splits)
  from epoch_body_split[OF b1] obtain tr1 u1 te1 v1 where
    t1: "train T1 a trL k s1 = (tr1, Inr u1)" and x1: "test T1 teL u1 = (te1, Inr v1)" and
    a1: "a1 = tr1 @ te1 @ [SchedStep (cur_lr v1) (cur_lr m1)]" and
    m1: "m1 = scheduler_step 1 (gamma a) v1" by blast
  from epoch_body_split[OF b2] obtain tr2 u2 te2 v2 where
    t2: "train T2 a trL k s2 = (tr2, Inr u2)" and x2: "test T2 teL u2 = (te2, Inr v2)" and
    a2: "a2 = tr2 @ te2 @ [SchedStep (cur_lr v2) (cur_lr m2)]" and
    m2: "m2 = scheduler_step 1 (gamma a) v2" by blast
  have it: "iter_loader T1 trL (gen s1) = iter_loader T2 trL (gen s2)"
    using iter_loader_same[OF sh] Cons.prems(3) by simp
  obtain bs gi where bg: "iter_loader T2 trL (gen s2) = (bs, gi)"
    by (cases "iter_loader T2 trL (gen s2)")
  have tl1: "train_loop T1 a k trL (enumerate 0 bs) (s1\<lparr>training := True, gen := gi\<rparr>) = (tr1, Inr u1)"
    using t1 it bg by (simp add: train_def)
  have tl2: "train_loop T2 a k trL (enumerate 0 bs) (s2\<lparr>training := True, gen := gi\<rparr>) = (tr2, Inr u2)"
    using t2 bg by (simp add: train_def)
  have gi: "gen (s1\<lparr>training := True, gen := gi\<rparr>) = gen (s2\<lparr>training := True, gen := gi\<rparr>)"
    by simp
  have tr: "train_batches tr1 = train_batches tr2 \<and> gen u1 = gen u2"
    using train_loop_sim[OF fg tl1 tl2 gi] .
  have ie: "iter_loader T1 teL (gen u1) = iter_loader T2 teL (gen u2)"
    using iter_loader_same[OF sh] tr by simp
  have ev: "eval_batches te1 = eval_batches te2"
    using test_eval_batches[OF x1] test_eval_batches[OF x2] ie by simp
  have gv: "gen v1 = gen v2"
    using test_unfold[OF x1] test_unfold[OF x2] ie by auto
  have gm: "gen m1 = gen m2" using m1 m2 gv by (simp add: scheduler_step_def Let_def)
  have ta: "train_batches a1 = train_batches a2"
    using a1 a2 tr train_batches_eval[OF test_events[OF x1]] train_batches_eval[OF test_events[OF x2]]
    by (simp add: train_batches_append)
  have ea: "eval_batches a1 = eval_batches a2"
    using a1 a2 ev eval_batches_train[OF train_events[OF t1]] eval_batches_train[OF train_events[OF t2]]
    by (simp add: eval_batches_append)
  from Cons.IH[OF l1 l2 gm] ta ea e1 e2 show ?case
    by (simp add: train_batches_append eval_batches_append)
qed

lemma initialise_sim:
  assumes "same_sampling T1 T2"
    and "initialise T1 a g1 dtr dte = Inr (trL1, teL1, s1)"
    and "initialise T2 a g2 dtr dte = Inr (trL2, teL2, s2)"
  shows "trL1 = trL2 \<and> teL1 = teL2 \<and> gen s1 = gen s2"
  using initialise_loaders[OF assms(2)] initialise_loaders[OF assms(3)] assms(1)
  by (simp add: same_sampling_def use_cuda_def)

text \<open>
  Two completed runs of two libraries that sample alike, from any two starts of the
  generator.
\<close>

lemma runs_same_order:
  assumes "same_sampling T1 T2"
    and "main T1 a g1 dtr dte = (evs1, Inr s1)"
    and "main T2 a g2 dtr dte = (evs2, Inr s2)"
  shows "train_batches evs1 = train_batches evs2 \<and> eval_batches evs1 = eval_batches evs2 \<and>
         main T1 a g2 dtr dte = (evs1, Inr s1)"
proof -
  from assms(2) obtain trL1 teL1 i1 c1 where
    ini1: "initialise T1 a g1 dtr dte = Inr (trL1, teL1, i1)" and
    l1: "epochs_loop T1 a trL1 teL1 [1..epochs a] i1 = (c1, Inr s1)" and
    e1: "evs1 = c1 @ (if save_model a then [Saved ''mnist_cnn.pt'' (params s1)] else [])"
    by (auto simp: main_def split: sum.splits prod.splits if_splits)
  from assms(3) obtain trL2 teL2 i2 c2 where
    ini2: "initialise T2 a g2 dtr dte = Inr (trL2, teL2, i2)" and
    l2: "epochs_loop T2 a trL2 teL2 [1..epochs a] i2 = (c2, Inr s2)" and
    e2: "evs2 = c2 @ (if save_model a then [Saved ''mnist_cnn.pt'' (params s2)] else [])"
    by (auto simp: main_def split: sum.splits prod.splits if_splits)
  from initialise_sim[OF assms(1) ini1 ini2] have
    L: "trL1 = trL2" "teL1 = teL2" and g: "gen i1 = gen i2" by simp_all
  from epochs_loop_sim[OF assms(1) l1 l2[folded L] g]
  have "train_batches c1 = train_batches c2 \<and> eval_batches c1 = eval_batches c2" .
  then have "train_batches evs1 = train_batches evs2 \<and> eval_batches evs1 = eval_batches evs2"
    using e1 e2 by (simp add: train_batches_append eval_batches_append)
  moreover have "initialise T1 a g2 dtr dte = initialise T1 a g1 dtr dte"
    by (simp add: initialise_def torch_manual_seed_def)
  then have "main T1 a g2 dtr dte = (evs1, Inr s1)"
    using assms(2) by (simp add: main_def)
  ultimately show ?thesis by blast
qed

text \<open>
  Claim C8. Take two runs with the same seed, the same configuration and the same
  datasets. With the same library the two runs are the same whatever states the
  generator starts from. With two libraries that agree only on seeding, shuffling and
  the advance of the generator, two runs that complete perform their optimizer steps on
  the same batches with the same epoch numbers and batch indices, and evaluate the same
  batches, again from any two starts of the generator.
\<close>

theorem C8_same_seed_same_order:
  assumes "same_sampling T1 T2"
  shows "main T1 a g1 dtr dte = main T1 a g2 dtr dte \<and>
         (\<forall>evs1 s1 evs2 s2.
            main T1 a g1 dtr dte = (evs1, Inr s1) \<longrightarrow>
            main T2 a g2 dtr dte = (evs2, Inr s2) \<longrightarrow>
            train_batches evs1 = train_batches evs2 \<and> eval_batches evs1 = eval_batches evs2)"
proof -
  have "initialise T1 a g1 dtr dte = initialise T1 a g2 dtr dte"
    by (simp add: initialise_def torch_manual_seed_def)
  then have "main T1 a g1 dtr dte = main T1 a g2 dtr dte" by (simp add: main_def)
  then show ?thesis using runs_same_order[OF assms] by blast
qed

lemma main1: "main lib1 args0 9 data0 data0 = (trace1, Inr final1)"
  by (simp add: run_defs lib1_def upto_rec1 trace1_def final1_def)

lemma same_sampling_lib01: "same_sampling lib0 lib1"
  by (simp add: same_sampling_def lib0_def lib1_def)

theorem C8_same_seed_same_order_witness:
  "same_sampling lib0 lib1 \<and>
   main lib0 args0 7 data0 data0 = (trace0, Inr final0) \<and>
   main lib1 args0 9 data0 data0 = (trace1, Inr final1) \<and>
   train_batches trace0 = train_batches trace1 \<and>
   eval_batches trace0 = eval_batches trace1 \<and>
   main lib0 args0 9 data0 data0 = (trace0, Inr final0) \<and>
   train_batches trace0 =
     [(1, 0, [(12, 0), (11, 1)]), (1, 1, [(10, 0)]),
      (2, 0, [(11, 1), (12, 0)]), (2, 1, [(10, 0)])]"
proof -
  have "train_batches trace0 =
     [(1, 0, [(12, 0), (11, 1)]), (1, 1, [(10, 0)]),
      (2, 0, [(11, 1), (12, 0)]), (2, 1, [(10, 0)])]"
    by (simp add: trace0_def)
  then show ?thesis
    using same_sampling_lib01 main0 main1
      C8_same_seed_same_order[OF same_sampling_lib01, of args0 7 data0 data0 9]
    by auto
qed

subsection \<open>Progress lines\<close>

text \<open>
  Where the progress lines fall has no effect on the computation: two passes without
  \<open>dry_run\<close> and with any two non-zero log intervals end in the same way and perform
  the same optimizer steps.
\<close>

lemma train_loop_logging:
  assumes "\<not> dry_run a" and "\<not> dry_run a'" and "log_interval a \<noteq> 0" and "log_interval a' \<noteq> 0"
  shows "snd (train_loop T a ep L ebs s) = snd (train_loop T a' ep L ebs s) \<and>
         train_batches (fst (train_loop T a ep L ebs s)) =
         train_batches (fst (train_loop T a' ep L ebs s))"
  using assms
  by (induction ebs arbitrary: s)
     (auto simp: Let_def split: sum.splits prod.splits, (metis fst_conv snd_conv)+)

lemma train0:
  "train lib0 args0 loader0 1 init0 =
     ([OptStep 1 0 1 [(12, 0), (11, 1)], TrainObs 1 0 3 0 2,
       OptStep 1 1 1 [(10, 0)], TrainObs 1 1 3 50 1],
      Inr (init0\<lparr>training := True, params := 3, opt_state := 2, gen := 3\<rparr>))"
  by (simp add: run_defs loader0_def init0_def)

text \<open>
  Claim C6, at a short last batch. The loader of the small instance hands out a batch
  of two samples and then a batch of one. The progress line of batch index 1 reports
  \<open>1 * 1 = 1\<close> sample processed of 3 (at 50 percent), although the two samples of batch 0
  precede it: \<open>batch_idx * len(data)\<close> counts the earlier batches at the size of the
  current one.
\<close>

theorem C6_progress_count_short_batch:
  "fst (iter_loader lib0 loader0 (gen init0)) = [[(12, 0), (11, 1)], [(10, 0)]] \<and>
   length (concat (take 1 (fst (iter_loader lib0 loader0 (gen init0))))) = 2 \<and>
   fst (train lib0 args0 loader0 1 init0) ! 3 = TrainObs 1 1 3 50 1"
proof -
  have "fst (iter_loader lib0 loader0 (gen init0)) = [[(12, 0), (11, 1)], [(10, 0)]]"
    by (simp add: iter_loader_def lib0_def loader0_def init0_def data0_def)
  then show ?thesis by (simp add: train0)
qed

end
